theory Spec2Isabelle
  imports Main "HOL-Library.Char_ord" "HOL-Library.List_Lexorder" "HOL-Library.Sublist" "HOL-Library.Multiset"
begin

section \<open>Python values and string formatting\<close>

text \<open>
  The exceptions the modelled code can raise. \<open>OSError\<close> stands for the file-system
  errors of the \<open>os\<close> module (FileNotFoundError, FileExistsError, NotADirectoryError,
  IsADirectoryError), \<open>WebDriverException\<close> for every fault of the browser driver.
\<close>

datatype error = AssertionError | TypeError | NameError | OSError | WebDriverException

text \<open>\<open>str(n)\<close> for a natural number: its decimal digits.\<close>

definition digit_char :: "nat \<Rightarrow> char" where
  "digit_char d = ''0123456789'' ! d"

fun str_nat :: "nat \<Rightarrow> string" where
  "str_nat n = (if n < 10 then [digit_char n] else str_nat (n div 10) @ [digit_char (n mod 10)])"

declare str_nat.simps [simp del]

definition str_int :: "int \<Rightarrow> string" where
  "str_int i = (if i < 0 then CHR ''-'' # str_nat (nat (- i)) else str_nat (nat i))"

text \<open>
  The Python objects that test data, assertion operands and case identifiers range over.
\<close>

datatype pyval = PNone | PBool bool | PInt int | PStr string

fun py_str :: "pyval \<Rightarrow> string" where
  "py_str PNone = ''None''"
| "py_str (PBool b) = (if b then ''True'' else ''False'')"
| "py_str (PInt i) = str_int i"
| "py_str (PStr s) = s"

text \<open>\<open>bool(expr)\<close>: Python truthiness.\<close>

fun py_bool :: "pyval \<Rightarrow> bool" where
  "py_bool PNone = False"
| "py_bool (PBool b) = b"
| "py_bool (PInt i) = (i \<noteq> 0)"
| "py_bool (PStr s) = (s \<noteq> [])"

text \<open>\<open>first == second\<close>: \<open>bool\<close> is a subtype of \<open>int\<close>, so \<open>True == 1\<close>.\<close>

fun py_eq :: "pyval \<Rightarrow> pyval \<Rightarrow> bool" where
  "py_eq PNone PNone = True"
| "py_eq (PBool a) (PBool b) = (a = b)"
| "py_eq (PBool a) (PInt j) = ((if a then 1 else 0) = j)"
| "py_eq (PInt i) (PBool b) = (i = (if b then 1 else 0))"
| "py_eq (PInt i) (PInt j) = (i = j)"
| "py_eq (PStr s) (PStr t) = (s = t)"
| "py_eq _ _ = False"

text \<open>\<open>sep.join(rows)\<close>.\<close>

fun str_join :: "string \<Rightarrow> string list \<Rightarrow> string" where
  "str_join sep [] = []"
| "str_join sep [r] = r"
| "str_join sep (r # rs) = r @ sep @ str_join sep rs"

section \<open>Step records and the test case\<close>

text \<open>
  The dataclasses \<open>_TestEvent\<close> and \<open>_TestStep\<close>. The attributes computed by
  \<open>__post_init__\<close> are functions of the fields.
\<close>

datatype step =
    TestEvent (eventDescription: string) (warning: bool)
      (dataString: string) (imagePath: "string option") (imageEmbed: bool)
  | TestStep (stepDescription: string) (expectedBehavior: string) (failureBehavior: string)
      (testStatus: bool) (dataString: string) (imagePath: "string option") (imageEmbed: bool)

fun statusColor :: "step \<Rightarrow> string" where
  "statusColor (TestEvent d w ds ip ie) = (if w then ''yellow'' else ''antiquewhite'')"
| "statusColor (TestStep d e f ts ds ip ie) = (if ts then ''green'' else ''red'')"

fun statusString :: "step \<Rightarrow> string" where
  "statusString (TestEvent d w ds ip ie) = (if w then ''WARNING'' else ''DONE'')"
| "statusString (TestStep d e f ts ds ip ie) = (if ts then ''PASS'' else ''FAIL'')"

fun actualBehavior :: "step \<Rightarrow> string" where
  "actualBehavior (TestStep d e f ts ds ip ie) = (if ts then e else f)"
| "actualBehavior (TestEvent d w ds ip ie) = []"

text \<open>
  \<open>ReportingTestCase\<close>: \<open>data\<close> holds the keyword arguments of the constructor,
  \<open>status\<close> is the rollup status (0 = FAIL, 1 = PASS, other = WARNING).
\<close>

record tcase =
  data :: "string \<rightharpoonup> pyval"
  testCaseID :: string
  testCaseDescription :: string
  status :: int
  debugPrint :: bool
  debugLog :: bool
  steps :: "step list"

definition init_case :: "string \<Rightarrow> string \<Rightarrow> bool \<Rightarrow> bool \<Rightarrow> (string \<rightharpoonup> pyval) \<Rightarrow> tcase" where
  "init_case tcid descr dbgPrint dbgLog kwargs =
     \<lparr>data = kwargs, testCaseID = tcid, testCaseDescription = descr, status = 1,
      debugPrint = dbgPrint, debugLog = dbgLog, steps = []\<rparr>"

definition caseStatusColor :: "tcase \<Rightarrow> string" where
  "caseStatusColor c =
     (if status c = 0 then ''red'' else if status c = 1 then ''green'' else ''yellow'')"

definition caseStatusString :: "tcase \<Rightarrow> string" where
  "caseStatusString c =
     (if status c = 0 then ''FAIL'' else if status c = 1 then ''PASS'' else ''WARNING'')"

section \<open>Data strings\<close>

text \<open>The \<open>data\<close> argument of the reporting calls: a list of names, a string or None.\<close>

datatype data_arg = DList "string list" | DStr string | DNone

definition data_row :: "tcase \<Rightarrow> string \<Rightarrow> string" where
  "data_row c k = k @ '': '' @ [CHR 0x27] @ (case data c k of Some v \<Rightarrow> py_str v | None \<Rightarrow> []) @ [CHR 0x27]"

text \<open>\<open>_makeDataString\<close> of the current module: the rows are joined by \<open><br>\<close>.\<close>

fun makeDataString :: "tcase \<Rightarrow> data_arg \<Rightarrow> string" where
  "makeDataString c (DList names) =
     (let filteredRows = filter (\<lambda>a. data c a \<noteq> None) names;
          rows = map (data_row c) filteredRows
      in str_join ''<br>'' rows)"
| "makeDataString c (DStr s) = s"
| "makeDataString c DNone = []"

text \<open>\<open>_makeDataString\<close> of the older module: the rows are joined by a newline.\<close>

fun makeDataString_old :: "tcase \<Rightarrow> data_arg \<Rightarrow> string" where
  "makeDataString_old c (DList names) =
     (let filteredRows = filter (\<lambda>a. data c a \<noteq> None) names;
          rows = map (data_row c) filteredRows
      in str_join [CHR 0x0A] rows)"
| "makeDataString_old c (DStr s) = s"
| "makeDataString_old c DNone = []"

section \<open>The file system\<close>

text \<open>
  What \<open>os.path\<close>, \<open>os\<close>, \<open>shutil\<close> and \<open>zipfile\<close> act on: a tree of directories
  and files, and the current working directory as the list of names from the root.
  A directory lists its entries in the order the operating system enumerates them.
  A file holds bytes, or (for a zip archive) the list of its members.
  There are no symbolic links and no permissions in this model.
\<close>

datatype content = Bytes string | Archive "(string \<times> content) list"

datatype node = File content | Dir "(string \<times> node) list"

record filesys =
  tree :: node
  cwd :: "string list"

fun lookup :: "string list \<Rightarrow> node \<Rightarrow> node option" where
  "lookup [] n = Some n"
| "lookup (c # cs) n =
     (case n of File x \<Rightarrow> None
      | Dir es \<Rightarrow> (case map_of es c of None \<Rightarrow> None | Some m \<Rightarrow> lookup cs m))"

definition is_dir_at :: "node \<Rightarrow> string list \<Rightarrow> bool" where
  "is_dir_at t q = (case lookup q t of Some (Dir es) \<Rightarrow> True | _ \<Rightarrow> False)"

definition is_file_at :: "node \<Rightarrow> string list \<Rightarrow> bool" where
  "is_file_at t q = (case lookup q t of Some (File x) \<Rightarrow> True | _ \<Rightarrow> False)"

definition set_entry :: "string \<Rightarrow> node \<Rightarrow> (string \<times> node) list \<Rightarrow> (string \<times> node) list" where
  "set_entry c v es =
     (if map_of es c = None then es @ [(c, v)]
      else map (\<lambda>e. if fst e = c then (c, v) else e) es)"

text \<open>\<open>put q new t\<close> stores \<open>new\<close> at \<open>q\<close> when the parent of \<open>q\<close> is a directory.\<close>

fun put :: "string list \<Rightarrow> node \<Rightarrow> node \<Rightarrow> node" where
  "put [] new n = new"
| "put (c # cs) new n =
     (case n of File x \<Rightarrow> File x
      | Dir es \<Rightarrow>
          (if cs = [] then Dir (set_entry c new es)
           else (case map_of es c of None \<Rightarrow> Dir es
                 | Some m \<Rightarrow> Dir (set_entry c (put cs new m) es))))"

text \<open>\<open>del q t\<close> removes the entry at \<open>q\<close> together with everything below it.\<close>

fun del :: "string list \<Rightarrow> node \<Rightarrow> node" where
  "del [] n = n"
| "del (c # cs) n =
     (case n of File x \<Rightarrow> File x
      | Dir es \<Rightarrow>
          (if cs = [] then Dir (filter (\<lambda>e. fst e \<noteq> c) es)
           else (case map_of es c of None \<Rightarrow> Dir es
                 | Some m \<Rightarrow> Dir (set_entry c (del cs m) es))))"

subsection \<open>Path strings\<close>

text \<open>\<open>os.path.join\<close> with two arguments (POSIX).\<close>

definition pjoin :: "string \<Rightarrow> string \<Rightarrow> string" where
  "pjoin a b =
     (if (case b of [] \<Rightarrow> False | x # xs \<Rightarrow> x = CHR ''/'') then b
      else if a = [] \<or> last a = CHR ''/'' then a @ b
      else a @ ''/'' @ b)"

fun split_sep :: "string \<Rightarrow> string list" where
  "split_sep [] = [[]]"
| "split_sep (c # cs) =
     (if c = CHR ''/'' then [] # split_sep cs
      else (case split_sep cs of [] \<Rightarrow> [[c]] | w # ws \<Rightarrow> (c # w) # ws))"

text \<open>
  Path resolution as the operating system does it, one component at a time: every
  component but the last must name an existing directory; \<open>.\<close> and the empty
  component stay, \<open>..\<close> goes to the parent. The result is the list of names from the
  root; the last name need not exist.
\<close>

fun walk_comps :: "node \<Rightarrow> string list \<Rightarrow> string list \<Rightarrow> string list option" where
  "walk_comps t cur [] = Some cur"
| "walk_comps t cur (c # cs) =
     (if \<not> is_dir_at t cur then None
      else if c = [] \<or> c = ''.'' then walk_comps t cur cs
      else if c = ''..'' then walk_comps t (butlast cur) cs
      else walk_comps t (cur @ [c]) cs)"

definition resolve :: "filesys \<Rightarrow> string \<Rightarrow> string list option" where
  "resolve fs p =
     (case p of [] \<Rightarrow> None
      | x # xs \<Rightarrow> walk_comps (tree fs) (if x = CHR ''/'' then [] else cwd fs) (split_sep p))"

subsection \<open>Operations of \<open>os\<close>, \<open>shutil\<close> and \<open>open\<close>\<close>

definition path_exists :: "filesys \<Rightarrow> string \<Rightarrow> bool" where
  "path_exists fs p =
     (case resolve fs p of None \<Rightarrow> False | Some q \<Rightarrow> lookup q (tree fs) \<noteq> None)"

definition mkdir :: "filesys \<Rightarrow> string \<Rightarrow> error + filesys" where
  "mkdir fs p =
     (case resolve fs p of None \<Rightarrow> Inl OSError
      | Some q \<Rightarrow>
          (case lookup q (tree fs) of Some n \<Rightarrow> Inl OSError
           | None \<Rightarrow> Inr (fs\<lparr>tree := put q (Dir []) (tree fs)\<rparr>)))"

text \<open>\<open>open(p, 'w')\<close>, the writes and the close: the file at \<open>p\<close> holds \<open>x\<close> afterwards.\<close>

definition write_file :: "filesys \<Rightarrow> string \<Rightarrow> content \<Rightarrow> error + filesys" where
  "write_file fs p x =
     (case resolve fs p of None \<Rightarrow> Inl OSError
      | Some q \<Rightarrow>
          (case lookup q (tree fs) of Some (Dir es) \<Rightarrow> Inl OSError
           | _ \<Rightarrow> Inr (fs\<lparr>tree := put q (File x) (tree fs)\<rparr>)))"

definition read_file :: "filesys \<Rightarrow> string \<Rightarrow> error + content" where
  "read_file fs p =
     (case resolve fs p of None \<Rightarrow> Inl OSError
      | Some q \<Rightarrow> (case lookup q (tree fs) of Some (File x) \<Rightarrow> Inr x | _ \<Rightarrow> Inl OSError))"

definition remove :: "filesys \<Rightarrow> string \<Rightarrow> error + filesys" where
  "remove fs p =
     (case resolve fs p of None \<Rightarrow> Inl OSError
      | Some q \<Rightarrow>
          (case lookup q (tree fs) of Some (File x) \<Rightarrow> Inr (fs\<lparr>tree := del q (tree fs)\<rparr>)
           | _ \<Rightarrow> Inl OSError))"

definition rmtree :: "filesys \<Rightarrow> string \<Rightarrow> error + filesys" where
  "rmtree fs p =
     (case resolve fs p of None \<Rightarrow> Inl OSError
      | Some q \<Rightarrow>
          (if q = [] then Inl OSError
           else (case lookup q (tree fs) of Some (Dir es) \<Rightarrow> Inr (fs\<lparr>tree := del q (tree fs)\<rparr>)
                 | _ \<Rightarrow> Inl OSError)))"

section \<open>Screenshots\<close>

text \<open>
  The browser driver is an external collaborator, taken as a parameter: which elements it
  finds for keyword and positional locators, and the PNG bytes it captures for an element
  or for the whole screen. \<open>None\<close> is a fault of the driver (an exception).
\<close>

record driver =
  find_element_kw :: "(string \<times> string) list \<Rightarrow> nat option"
  find_element_pos :: "string list \<Rightarrow> nat option"
  element_png :: "nat \<Rightarrow> string option"
  screen_png :: "string option"

text \<open>The \<open>element\<close> argument: a dict, a tuple, a WebElement or anything else (a string).\<close>

datatype element = ElDict "(string \<times> string) list" | ElTuple "string list" | ElWeb nat | ElStr string

text \<open>
  The driver's \<open>screenshot(filename)\<close> and \<open>save_screenshot(filename)\<close> write the
  bytes to the file and return False, without raising, when the file cannot be written.
\<close>

definition save_png :: "filesys \<Rightarrow> string \<Rightarrow> string \<Rightarrow> filesys" where
  "save_png fs p png = (case write_file fs p (Bytes png) of Inl e \<Rightarrow> fs | Inr fs' \<Rightarrow> fs')"

definition screenshot_name :: "nat \<Rightarrow> string \<Rightarrow> string" where
  "screenshot_name n description = str_nat (n + 1) @ '' - '' @ description @ ''.png''"

text \<open>\<open>_screenshot\<close> of the current module.\<close>

definition screenshot :: "driver \<Rightarrow> filesys \<Rightarrow> tcase \<Rightarrow> element \<Rightarrow> string \<Rightarrow> (error \<times> filesys) + (filesys \<times> string)" where
  "screenshot drv fs c el description =
     (let outFolder = pjoin ''.screenshots'' (testCaseID c) in
      case (if \<not> path_exists fs outFolder then mkdir fs outFolder else Inr fs) of
        Inl e \<Rightarrow> Inl (e, fs)
      | Inr fs1 \<Rightarrow>
          (let imgPath = pjoin outFolder (screenshot_name (length (steps c)) description) in
           case (case el of
                   ElDict kw \<Rightarrow> (case find_element_kw drv kw of None \<Rightarrow> None | Some h \<Rightarrow> element_png drv h)
                 | ElTuple args \<Rightarrow> (case find_element_pos drv args of None \<Rightarrow> None | Some h \<Rightarrow> element_png drv h)
                 | ElWeb h \<Rightarrow> element_png drv h
                 | ElStr s \<Rightarrow> screen_png drv) of
             None \<Rightarrow> Inl (WebDriverException, fs1)
           | Some png \<Rightarrow> Inr (save_png fs1 imgPath png, imgPath)))"

text \<open>
  \<open>_screenshot\<close> of the older module: the file name is the description alone, the dict
  branch reads the undefined name \<open>elementIDs\<close>, and a tuple falls to the last branch.
\<close>

definition screenshot_old :: "driver \<Rightarrow> filesys \<Rightarrow> tcase \<Rightarrow> element \<Rightarrow> string \<Rightarrow> (error \<times> filesys) + (filesys \<times> string)" where
  "screenshot_old drv fs c el description =
     (let outFolder = pjoin ''.screenshots'' (testCaseID c) in
      case (if \<not> path_exists fs outFolder then mkdir fs outFolder else Inr fs) of
        Inl e \<Rightarrow> Inl (e, fs)
      | Inr fs1 \<Rightarrow>
          (let imgPath = pjoin outFolder (description @ ''.png'') in
           case el of
             ElDict kw \<Rightarrow> Inl (NameError, fs1)
           | ElWeb h \<Rightarrow>
               (case element_png drv h of None \<Rightarrow> Inl (WebDriverException, fs1)
                | Some png \<Rightarrow> Inr (save_png fs1 imgPath png, imgPath))
           | _ \<Rightarrow>
               (case screen_png drv of None \<Rightarrow> Inl (WebDriverException, fs1)
                | Some png \<Rightarrow> Inr (save_png fs1 imgPath png, imgPath))))"

text \<open>
  The first lines of \<open>reportEvent\<close> and \<open>reportStep\<close>:
  \<open>imagePath = None; if element is not None: imagePath = self._screenshot(element, description)\<close>.
\<close>

definition capture :: "driver \<Rightarrow> filesys \<Rightarrow> tcase \<Rightarrow> element option \<Rightarrow> string \<Rightarrow> (error \<times> filesys) + (filesys \<times> string option)" where
  "capture drv fs c element description =
     (case element of None \<Rightarrow> Inr (fs, None)
      | Some el \<Rightarrow>
          (case screenshot drv fs c el description of Inl x \<Rightarrow> Inl x
           | Inr (fs', p) \<Rightarrow> Inr (fs', Some p)))"

definition capture_old :: "driver \<Rightarrow> filesys \<Rightarrow> tcase \<Rightarrow> element option \<Rightarrow> string \<Rightarrow> (error \<times> filesys) + (filesys \<times> string option)" where
  "capture_old drv fs c element description =
     (case element of None \<Rightarrow> Inr (fs, None)
      | Some el \<Rightarrow>
          (case screenshot_old drv fs c el description of Inl x \<Rightarrow> Inl x
           | Inr (fs', p) \<Rightarrow> Inr (fs', Some p)))"

section \<open>The reporting calls\<close>

text \<open>
  A call acts on the file system and on the case object. It returns the new state
  (\<open>Inr\<close>) or raises (\<open>Inl\<close>), leaving the state as it was at the raise. The two debug
  echoes of the current module only print and log the description.
\<close>

type_synonym world = "filesys \<times> tcase"
type_synonym outcome = "(error \<times> world) + world"

definition reportEvent :: "driver \<Rightarrow> world \<Rightarrow> string \<Rightarrow> bool \<Rightarrow> data_arg \<Rightarrow> bool \<Rightarrow> element option \<Rightarrow> outcome" where
  "reportEvent drv w description warn dataArg imgEmbed element =
     (case w of (fs, c) \<Rightarrow>
        (case capture drv fs c element description of
           Inl (e, fs') \<Rightarrow> Inl (e, fs', c)
         | Inr (fs', imgPath) \<Rightarrow>
             (let c1 = c\<lparr>steps := steps c @
                         [TestEvent description warn (makeDataString c dataArg) imgPath imgEmbed]\<rparr>
              in Inr (fs', if warn \<and> status c1 = 1 then c1\<lparr>status := 2\<rparr> else c1))))"

definition reportStep :: "driver \<Rightarrow> world \<Rightarrow> string \<Rightarrow> string \<Rightarrow> string \<Rightarrow> bool \<Rightarrow> data_arg \<Rightarrow> bool \<Rightarrow> element option \<Rightarrow> outcome" where
  "reportStep drv w description expected failure outcome dataArg imgEmbed element =
     (case w of (fs, c) \<Rightarrow>
        (case capture drv fs c element description of
           Inl (e, fs') \<Rightarrow> Inl (e, fs', c)
         | Inr (fs', imgPath) \<Rightarrow>
             (let c1 = c\<lparr>steps := steps c @
                         [TestStep description expected failure outcome
                            (makeDataString c dataArg) imgPath imgEmbed]\<rparr>
              in Inr (fs', if \<not> outcome \<and> status c1 \<noteq> 0 then c1\<lparr>status := 0\<rparr> else c1))))"

text \<open>
  The four assertions: report the step, then the assertion of \<open>unittest.TestCase\<close>,
  which raises when the predicate does not hold.
\<close>

definition assertTrue :: "driver \<Rightarrow> world \<Rightarrow> pyval \<Rightarrow> string \<Rightarrow> string \<Rightarrow> string \<Rightarrow> data_arg \<Rightarrow> bool \<Rightarrow> element option \<Rightarrow> outcome" where
  "assertTrue drv w expr description expected failure dataArg imgEmbed element =
     (case reportStep drv w description expected failure (py_bool expr) dataArg imgEmbed element of
        Inl x \<Rightarrow> Inl x
      | Inr w' \<Rightarrow> if py_bool expr then Inr w' else Inl (AssertionError, w'))"

definition assertEqual :: "driver \<Rightarrow> world \<Rightarrow> pyval \<Rightarrow> pyval \<Rightarrow> string \<Rightarrow> string \<Rightarrow> string \<Rightarrow> data_arg \<Rightarrow> bool \<Rightarrow> element option \<Rightarrow> outcome" where
  "assertEqual drv w first second description expected failure dataArg imgEmbed element =
     (case reportStep drv w description expected failure (py_eq first second) dataArg imgEmbed element of
        Inl x \<Rightarrow> Inl x
      | Inr w' \<Rightarrow> if py_eq first second then Inr w' else Inl (AssertionError, w'))"

definition assertFalse :: "driver \<Rightarrow> world \<Rightarrow> pyval \<Rightarrow> string \<Rightarrow> string \<Rightarrow> string \<Rightarrow> data_arg \<Rightarrow> bool \<Rightarrow> element option \<Rightarrow> outcome" where
  "assertFalse drv w expr description expected failure dataArg imgEmbed element =
     (case reportStep drv w description expected failure (\<not> py_bool expr) dataArg imgEmbed element of
        Inl x \<Rightarrow> Inl x
      | Inr w' \<Rightarrow> if py_bool expr then Inl (AssertionError, w') else Inr w')"

definition assertNotEqual :: "driver \<Rightarrow> world \<Rightarrow> pyval \<Rightarrow> pyval \<Rightarrow> string \<Rightarrow> string \<Rightarrow> string \<Rightarrow> data_arg \<Rightarrow> bool \<Rightarrow> element option \<Rightarrow> outcome" where
  "assertNotEqual drv w first second description expected failure dataArg imgEmbed element =
     (case reportStep drv w description expected failure (\<not> py_eq first second) dataArg imgEmbed element of
        Inl x \<Rightarrow> Inl x
      | Inr w' \<Rightarrow> if \<not> (\<not> py_eq first second) then Inl (AssertionError, w') else Inr w')"

text \<open>
  The body of a test method as the sequence of its reporting calls. An exception leaves
  the body: the calls after a raise are not made.
\<close>

datatype call =
    ReportEvent string bool data_arg bool "element option"
  | ReportStep string string string bool data_arg bool "element option"
  | AssertTrue pyval string string string data_arg bool "element option"
  | AssertEqual pyval pyval string string string data_arg bool "element option"
  | AssertFalse pyval string string string data_arg bool "element option"
  | AssertNotEqual pyval pyval string string string data_arg bool "element option"

fun exec_call :: "driver \<Rightarrow> world \<Rightarrow> call \<Rightarrow> outcome" where
  "exec_call drv w (ReportEvent d wn da em el) = reportEvent drv w d wn da em el"
| "exec_call drv w (ReportStep d e f ts da em el) = reportStep drv w d e f ts da em el"
| "exec_call drv w (AssertTrue x d e f da em el) = assertTrue drv w x d e f da em el"
| "exec_call drv w (AssertEqual x y d e f da em el) = assertEqual drv w x y d e f da em el"
| "exec_call drv w (AssertFalse x d e f da em el) = assertFalse drv w x d e f da em el"
| "exec_call drv w (AssertNotEqual x y d e f da em el) = assertNotEqual drv w x y d e f da em el"

fun run_calls :: "driver \<Rightarrow> world \<Rightarrow> call list \<Rightarrow> outcome" where
  "run_calls drv w [] = Inr w"
| "run_calls drv w (x # xs) =
     (case exec_call drv w x of Inl r \<Rightarrow> Inl r | Inr w' \<Rightarrow> run_calls drv w' xs)"

text \<open>The case object after a call or a body, whether it returned or raised.\<close>

fun final_case :: "outcome \<Rightarrow> tcase" where
  "final_case (Inl (e, fs, c)) = c"
| "final_case (Inr (fs, c)) = c"

section \<open>The older module\<close>

text \<open>
  \<open>reportEvent\<close> and \<open>reportStep\<close> of the older module: as the current ones, with the
  older \<open>_screenshot\<close> and \<open>_makeDataString\<close>.
\<close>

definition reportEvent_old :: "driver \<Rightarrow> world \<Rightarrow> string \<Rightarrow> bool \<Rightarrow> data_arg \<Rightarrow> bool \<Rightarrow> element option \<Rightarrow> outcome" where
  "reportEvent_old drv w description warn dataArg imgEmbed element =
     (case w of (fs, c) \<Rightarrow>
        (case capture_old drv fs c element description of
           Inl (e, fs') \<Rightarrow> Inl (e, fs', c)
         | Inr (fs', imgPath) \<Rightarrow>
             (let c1 = c\<lparr>steps := steps c @
                         [TestEvent description warn (makeDataString_old c dataArg) imgPath imgEmbed]\<rparr>
              in Inr (fs', if warn \<and> status c1 = 1 then c1\<lparr>status := 2\<rparr> else c1))))"

definition reportStep_old :: "driver \<Rightarrow> world \<Rightarrow> string \<Rightarrow> string \<Rightarrow> string \<Rightarrow> bool \<Rightarrow> data_arg \<Rightarrow> bool \<Rightarrow> element option \<Rightarrow> outcome" where
  "reportStep_old drv w description expected failure outcome dataArg imgEmbed element =
     (case w of (fs, c) \<Rightarrow>
        (case capture_old drv fs c element description of
           Inl (e, fs') \<Rightarrow> Inl (e, fs', c)
         | Inr (fs', imgPath) \<Rightarrow>
             (let c1 = c\<lparr>steps := steps c @
                         [TestStep description expected failure outcome
                            (makeDataString_old c dataArg) imgPath imgEmbed]\<rparr>
              in Inr (fs', if \<not> outcome \<and> status c1 \<noteq> 0 then c1\<lparr>status := 0\<rparr> else c1))))"

text \<open>
  The assertions of the older module call \<open>reportStep\<close> with keyword arguments only.
  Python binds the keywords to the parameters of the signature before the body runs: a
  keyword that names no parameter, or a required parameter left without a value, raises
  TypeError. The values passed are strings, booleans, a data argument or an element.
\<close>

datatype arg = AStr string | ABool bool | AData data_arg | AElem "element option"

definition reportStep_old_params :: "string list" where
  "reportStep_old_params =
     [''stepDescription'', ''expectedBehavior'', ''failureBehavior'', ''testStatus'',
      ''data'', ''imageEmbed'', ''element'']"

definition call_reportStep_old :: "driver \<Rightarrow> world \<Rightarrow> (string \<times> arg) list \<Rightarrow> outcome" where
  "call_reportStep_old drv w kwargs =
     (if \<not> list_all (\<lambda>k. k \<in> set reportStep_old_params) (map fst kwargs) then Inl (TypeError, w)
      else
        (case (map_of kwargs ''stepDescription'', map_of kwargs ''expectedBehavior'',
               map_of kwargs ''failureBehavior'', map_of kwargs ''testStatus'') of
           (Some (AStr d), Some (AStr e), Some (AStr f), Some (ABool ts)) \<Rightarrow>
             reportStep_old drv w d e f ts
               (case map_of kwargs ''data'' of Some (AData da) \<Rightarrow> da | _ \<Rightarrow> DNone)
               (case map_of kwargs ''imageEmbed'' of Some (ABool b) \<Rightarrow> b | _ \<Rightarrow> False)
               (case map_of kwargs ''element'' of Some (AElem el) \<Rightarrow> el | _ \<Rightarrow> None)
         | _ \<Rightarrow> Inl (TypeError, w)))"

definition assert_kwargs_old :: "string \<Rightarrow> string \<Rightarrow> string \<Rightarrow> bool \<Rightarrow> data_arg \<Rightarrow> bool \<Rightarrow> (string \<times> string) list option \<Rightarrow> (string \<times> arg) list" where
  "assert_kwargs_old description expected failure outcome dataArg imgEmbed elementIDs =
     [(''stepDescription'', AStr description), (''expectedBehavior'', AStr expected),
      (''failureBehavior'', AStr failure), (''testStatus'', ABool outcome),
      (''data'', AData dataArg), (''imageEmbed'', ABool imgEmbed),
      (''elementIDs'', AElem (map_option ElDict elementIDs))]"

definition assertTrue_old :: "driver \<Rightarrow> world \<Rightarrow> pyval \<Rightarrow> string \<Rightarrow> string \<Rightarrow> string \<Rightarrow> data_arg \<Rightarrow> bool \<Rightarrow> (string \<times> string) list option \<Rightarrow> outcome" where
  "assertTrue_old drv w expr description expected failure dataArg imgEmbed elementIDs =
     (case call_reportStep_old drv w
             (assert_kwargs_old description expected failure (py_bool expr) dataArg imgEmbed elementIDs) of
        Inl x \<Rightarrow> Inl x
      | Inr w' \<Rightarrow> if py_bool expr then Inr w' else Inl (AssertionError, w'))"

definition assertEqual_old :: "driver \<Rightarrow> world \<Rightarrow> pyval \<Rightarrow> pyval \<Rightarrow> string \<Rightarrow> string \<Rightarrow> string \<Rightarrow> data_arg \<Rightarrow> bool \<Rightarrow> (string \<times> string) list option \<Rightarrow> outcome" where
  "assertEqual_old drv w first second description expected failure dataArg imgEmbed elementIDs =
     (case call_reportStep_old drv w
             (assert_kwargs_old description expected failure (py_eq first second) dataArg imgEmbed elementIDs) of
        Inl x \<Rightarrow> Inl x
      | Inr w' \<Rightarrow> if py_eq first second then Inr w' else Inl (AssertionError, w'))"

definition assertFalse_old :: "driver \<Rightarrow> world \<Rightarrow> pyval \<Rightarrow> string \<Rightarrow> string \<Rightarrow> string \<Rightarrow> data_arg \<Rightarrow> bool \<Rightarrow> (string \<times> string) list option \<Rightarrow> outcome" where
  "assertFalse_old drv w expr description expected failure dataArg imgEmbed elementIDs =
     (case call_reportStep_old drv w
             (assert_kwargs_old description expected failure (\<not> py_bool expr) dataArg imgEmbed elementIDs) of
        Inl x \<Rightarrow> Inl x
      | Inr w' \<Rightarrow> if py_bool expr then Inl (AssertionError, w') else Inr w')"

definition assertNotEqual_old :: "driver \<Rightarrow> world \<Rightarrow> pyval \<Rightarrow> pyval \<Rightarrow> string \<Rightarrow> string \<Rightarrow> string \<Rightarrow> data_arg \<Rightarrow> bool \<Rightarrow> (string \<times> string) list option \<Rightarrow> outcome" where
  "assertNotEqual_old drv w first second description expected failure dataArg imgEmbed elementIDs =
     (case call_reportStep_old drv w
             (assert_kwargs_old description expected failure (\<not> py_eq first second) dataArg imgEmbed elementIDs) of
        Inl x \<Rightarrow> Inl x
      | Inr w' \<Rightarrow> if \<not> (\<not> py_eq first second) then Inl (AssertionError, w') else Inr w')"

section \<open>The report\<close>

text \<open>
  The result object of a run: three lists of (test, message) pairs. The tests are the
  case objects as their run left them.
\<close>

record run_result =
  successes :: "(tcase \<times> string) list"
  failures :: "(tcase \<times> string) list"
  errors :: "(tcase \<times> string) list"

text \<open>
  \<open>allTestCases = list(chain(succs, fails, errors)); allTestCases.sort(key=...)\<close>:
  Python's sort is stable and compares strings character by character by code point;
  \<open>sort_key\<close> is the stable sort of the library, on the lexicographic order of strings.
\<close>

definition allTestCases :: "run_result \<Rightarrow> tcase list" where
  "allTestCases r =
     (let succs = map fst (successes r); fails = map fst (failures r); errs = map fst (errors r)
      in sort_key testCaseID (succs @ fails @ errs))"

subsection \<open>The HTML document\<close>

text \<open>A line break of a triple-quoted literal together with the indentation after it.\<close>

definition nl_pad :: "nat \<Rightarrow> string" where
  "nl_pad k = CHR 0x0A # replicate k (CHR '' '')"

definition tableStyleString :: string where
  \<open>tableStyleString = ''style="width: 1000px;margin: 0;'' @ nl_pad 20 @ ''padding: 0;table-layout: fixed;border-collapse: collapse;'' @ nl_pad 20 @ ''font: 11px/1.4 Trebuchet MS;"''\<close>

definition tableHeaderStyleString :: string where
  \<open>tableHeaderStyleString = ''style="margin: 0;padding: 0;"''\<close>

text \<open>The header line: report name, time of the run (\<open>datetime.now()\<close>), tester.\<close>

definition report_header :: "string \<Rightarrow> string \<Rightarrow> string \<Rightarrow> string" where
  "report_header testName now testerName =
     ''<h3>'' @ testName @ nl_pad 16 @ ''- run '' @ now @ nl_pad 16 @ ''by '' @ testerName @ ''</h3>''"

definition summary_head_cell :: "string \<times> nat \<Rightarrow> string" where
  \<open>summary_head_cell tw = (case tw of (text, width) \<Rightarrow>
     ''<th style="width: '' @ str_nat width @ ''px;margin: 0;padding: 6px;'' @ nl_pad 24 @ ''background: #333;color: white;font-weight: bold;'' @ nl_pad 24 @ ''border: 1px solid #ccc;text-align: auto;">'' @ nl_pad 24 @ text @ ''</th>'')\<close>

definition summary_cell :: "string \<times> nat \<Rightarrow> string" where
  \<open>summary_cell tw = (case tw of (text, width) \<Rightarrow>
     ''<th style="width: '' @ str_nat width @ ''px;margin: 0;padding: 6px;'' @ nl_pad 24 @ ''background: white;color: black;font-weight: bold;'' @ nl_pad 24 @ ''border: 1px solid #ccc;text-align: auto;">'' @ nl_pad 24 @ text @ ''</th>'')\<close>

definition summary_status_cell :: "tcase \<Rightarrow> string" where
  \<open>summary_status_cell c =
     ''<th style="width: 200px;margin: 0;padding: 6px;'' @ nl_pad 20 @ ''background: '' @ caseStatusColor c @ '';color: black;'' @ nl_pad 20 @ ''font-weight: bold;border: 1px solid #ccc;'' @ nl_pad 20 @ ''text-align: auto;">'' @ caseStatusString c @ ''</th>''\<close>

definition steps_head_cell :: "string \<times> nat \<Rightarrow> string" where
  \<open>steps_head_cell tw = (case tw of (text, width) \<Rightarrow>
     ''<th style="width: '' @ str_nat width @ ''px;margin: 0;'' @ nl_pad 24 @ ''padding: 6px;background: #333;color: white;'' @ nl_pad 24 @ ''font-weight: bold;border: 1px solid #ccc;'' @ nl_pad 24 @ ''text-align: auto;">'' @ text @ ''</th>'')\<close>

definition step_number_cell :: "nat \<Rightarrow> string" where
  \<open>step_number_cell i =
     ''<tr><th style="width: 50px;margin: 0;padding: 6px;'' @ nl_pad 24 @ ''background: white;color: black;font-weight: bold;'' @ nl_pad 24 @ ''border: 1px solid #ccc;text-align: auto;">'' @ str_nat i @ ''</th>''\<close>

definition step_text_cell :: "nat \<times> string \<Rightarrow> string" where
  \<open>step_text_cell wt = (case wt of (w, t) \<Rightarrow>
     ''<th style="width: '' @ str_nat w @ ''px;margin: 0;'' @ nl_pad 32 @ ''padding: 6px;background: white;color: black;'' @ nl_pad 32 @ ''font-weight: bold;border: 1px solid #ccc;'' @ nl_pad 32 @ ''text-align: auto;">'' @ t @ ''</th>'')\<close>

definition step_status_cell :: "step \<Rightarrow> string" where
  \<open>step_status_cell s =
     ''<th style="width: 50px;margin: 0;padding:'' @ nl_pad 24 @ ''6px;background: '' @ statusColor s @ '';color: black;'' @ nl_pad 24 @ ''font-weight: bold;border: 1px solid #ccc;'' @ nl_pad 24 @ ''text-align: auto;">'' @ statusString s @ ''</th>''\<close>

definition step_data_cell :: "step \<Rightarrow> string" where
  \<open>step_data_cell s =
     ''<th style="width: 250px;margin: 0;padding: 6px;'' @ nl_pad 24 @ ''background: white;color: black;'' @ nl_pad 24 @ ''font-weight: bold;border: 1px solid #ccc;'' @ nl_pad 24 @ ''text-align: auto;">'' @ dataString s @ ''</th>''\<close>

definition step_image_cell :: "step \<Rightarrow> string" where
  \<open>step_image_cell s =
     (case imagePath s of
        None \<Rightarrow>
          ''<th style="width: 400px;margin: 0;padding: 6px;'' @ nl_pad 28 @ ''background: white;color: black;'' @ nl_pad 28 @ ''font-weight: bold;border: 1px solid #ccc;'' @ nl_pad 28 @ ''text-align: auto;">N/A</th>''
      | Some p \<Rightarrow>
          (if imageEmbed s then
             ''<th style="width: 400px;margin: 0;'' @ nl_pad 32 @ ''padding: 6px;background: white;'' @ nl_pad 32 @ ''color: black;font-weight: bold;'' @ nl_pad 32 @ ''border: 1px solid #ccc;text-align: auto;'' @ nl_pad 32 @ ''"><image src="'' @ p @ ''">'' @ nl_pad 32 @ ''</image></th>''
           else
             ''<th style="width: 400px;margin: 0;'' @ nl_pad 32 @ ''padding: 6px;background: white;'' @ nl_pad 32 @ ''color: black;font-weight: bold;'' @ nl_pad 32 @ ''border: 1px solid #ccc;text-align: auto;'' @ nl_pad 32 @ ''"><a href="'' @ p @ nl_pad 32 @ ''" target="_blank">Link</a></th>''))\<close>

text \<open>One row of the step table, for the step numbered \<open>i\<close>.\<close>

definition step_row :: "nat \<times> step \<Rightarrow> string" where
  "step_row is = (case is of (i, s) \<Rightarrow>
     step_number_cell i
     @ (case s of
          TestStep d e f ts ds ip ie \<Rightarrow>
            concat (map step_text_cell (zip [200, 300, 300] [d, e, actualBehavior s]))
        | TestEvent d w ds ip ie \<Rightarrow>
            concat (map step_text_cell (zip [300, 200, 300] [d, [], []])))
     @ step_status_cell s
     @ step_data_cell s
     @ step_image_cell s
     @ ''</tr>'')"

text \<open>The block of one case: the summary table and the collapsible step table.\<close>

definition case_block :: "tcase \<Rightarrow> string" where
  "case_block c =
     ''<table '' @ tableStyleString @ ''>'' @ nl_pad 20 @ ''<thead '' @ tableHeaderStyleString @ ''>'' @ nl_pad 20 @ ''<tr '' @ tableHeaderStyleString @ ''>''
     @ concat (map summary_head_cell (zip [''TCID'', ''Description'', ''Status''] [100, 700, 200]))
     @ ''</tr></thead><tbody><tr>''
     @ concat (map summary_cell (zip [testCaseID c, testCaseDescription c] [100, 700]))
     @ summary_status_cell c
     @ ''</tr></tbody></table>''
     @ ''<details><summary>Step Details</summary>'' @ nl_pad 20 @ ''<table '' @ tableStyleString @ ''>'' @ nl_pad 20 @ ''<thead '' @ tableHeaderStyleString @ ''>'' @ nl_pad 20 @ ''<tr '' @ tableHeaderStyleString @ ''>''
     @ concat (map steps_head_cell
         (zip [''Step #'', ''Description'', ''Expected Behavior'', ''Actual Behavior'', ''Status'',
               ''Test Data'', ''Screenshot'']
              [50, 200, 300, 300, 50, 250, 400]))
     @ ''</tr></thead>''
     @ ''<tbody '' @ tableHeaderStyleString @ ''>''
     @ concat (map step_row (zip [1 ..< Suc (length (steps c))] (steps c)))
     @ ''</tbody>''
     @ ''</table></details><br><br>''"

text \<open>Everything that is written to the document, in the order of the writes.\<close>

definition render_report :: "string \<Rightarrow> string \<Rightarrow> string \<Rightarrow> tcase list \<Rightarrow> string" where
  "render_report testName now testerName cases =
     ''<html><body>''
     @ report_header testName now testerName
     @ concat (map case_block cases)
     @ ''</body></html>''"

subsection \<open>The suite and \<open>writeReport\<close>\<close>

record suite =
  testName :: string
  testerName :: string
  outPath :: string
  screenshot_path :: string

text \<open>\<open>ReportingTestSuite.__init__\<close>: the output directory and its \<open>.screenshots\<close>.\<close>

definition init_suite :: "filesys \<Rightarrow> string \<Rightarrow> string \<Rightarrow> string option \<Rightarrow> (error \<times> filesys) + (filesys \<times> suite)" where
  "init_suite fs name tester outPathArg =
     (let out = (case outPathArg of Some p \<Rightarrow> p | None \<Rightarrow> name) in
      case (if \<not> path_exists fs out then mkdir fs out else Inr fs) of
        Inl e \<Rightarrow> Inl (e, fs)
      | Inr fs1 \<Rightarrow>
          (let shots = pjoin out ''.screenshots'' in
           case (if \<not> path_exists fs1 shots then mkdir fs1 shots else Inr fs1) of
             Inl e \<Rightarrow> Inl (e, fs1)
           | Inr fs2 \<Rightarrow>
               Inr (fs2, \<lparr>testName = name, testerName = tester, outPath = out,
                          screenshot_path = shots\<rparr>)))"

text \<open>
  \<open>os.walk(top)\<close>, top-down: for a directory the triple of its path, the names of its
  sub-directories and the names of its other entries, then the walk of every
  sub-directory under the joined path. Nothing for what is no directory.
\<close>

definition dirnames :: "(string \<times> node) list \<Rightarrow> string list" where
  "dirnames es = map fst (filter (\<lambda>e. case snd e of Dir ds \<Rightarrow> True | File x \<Rightarrow> False) es)"

definition filenames :: "(string \<times> node) list \<Rightarrow> string list" where
  "filenames es = map fst (filter (\<lambda>e. case snd e of Dir ds \<Rightarrow> False | File x \<Rightarrow> True) es)"

fun walk_node :: "string \<Rightarrow> node \<Rightarrow> (string \<times> string list \<times> string list) list" where
  "walk_node tp (File x) = []"
| "walk_node tp (Dir es) =
     (tp, dirnames es, filenames es)
     # concat (map (\<lambda>e. case snd e of Dir ds \<Rightarrow> walk_node (pjoin tp (fst e)) (snd e)
                          | File x \<Rightarrow> []) es)"

definition walk :: "filesys \<Rightarrow> string \<Rightarrow> (string \<times> string list \<times> string list) list" where
  "walk fs tp =
     (case resolve fs tp of None \<Rightarrow> []
      | Some q \<Rightarrow> (case lookup q (tree fs) of None \<Rightarrow> [] | Some n \<Rightarrow> walk_node tp n))"

text \<open>\<open>zf.write(p)\<close> for every path: the member named by the path, with the file's content.\<close>

fun zip_write_all :: "filesys \<Rightarrow> string list \<Rightarrow> (error \<times> (string \<times> content) list) + (string \<times> content) list" where
  "zip_write_all fs [] = Inr []"
| "zip_write_all fs (p # ps) =
     (case read_file fs p of Inl e \<Rightarrow> Inl (e, [])
      | Inr x \<Rightarrow>
          (case zip_write_all fs ps of Inl (e, ms) \<Rightarrow> Inl (e, (p, x) # ms)
           | Inr ms \<Rightarrow> Inr ((p, x) # ms)))"

text \<open>
  \<open>ZipFile(zipPath, 'w')\<close> creates or truncates the file and keeps it open: the archive
  is the file at the place the path named then. Closing the archive stores its members
  there, if that file is still in place.
\<close>

definition zip_open :: "filesys \<Rightarrow> string \<Rightarrow> error + (filesys \<times> string list)" where
  "zip_open fs p =
     (case resolve fs p of None \<Rightarrow> Inl OSError
      | Some q \<Rightarrow>
          (case lookup q (tree fs) of Some (Dir es) \<Rightarrow> Inl OSError
           | _ \<Rightarrow> Inr (fs\<lparr>tree := put q (File (Archive [])) (tree fs)\<rparr>, q)))"

definition zip_close :: "filesys \<Rightarrow> string list \<Rightarrow> (string \<times> content) list \<Rightarrow> filesys" where
  "zip_close fs q ms =
     (if is_file_at (tree fs) q then fs\<lparr>tree := put q (File (Archive ms)) (tree fs)\<rparr> else fs)"

text \<open>The \<open>if zipReport:\<close> block of \<open>writeReport\<close>.\<close>

definition zip_report :: "filesys \<Rightarrow> suite \<Rightarrow> string \<Rightarrow> (error \<times> filesys) + filesys" where
  "zip_report fs su filePath =
     (case zip_open fs (pjoin (outPath su) (testName su @ ''.zip'')) of
        Inl e \<Rightarrow> Inl (e, fs)
      | Inr (fs1, zq) \<Rightarrow>
          (let paths = concat (map (\<lambda>(root, ds, files). map (pjoin root) files)
                                   (walk fs1 (screenshot_path su)))
                       @ [filePath] in
           case zip_write_all fs1 paths of
             Inl (e, ms) \<Rightarrow> Inl (e, zip_close fs1 zq ms)
           | Inr ms \<Rightarrow>
               (case rmtree fs1 (screenshot_path su) of
                  Inl e \<Rightarrow> Inl (e, zip_close fs1 zq ms)
                | Inr fs2 \<Rightarrow>
                    (case remove fs2 filePath of
                       Inl e \<Rightarrow> Inl (e, zip_close fs2 zq ms)
                     | Inr fs3 \<Rightarrow> Inr (zip_close fs3 zq ms)))))"

text \<open>
  \<open>writeReport\<close>; \<open>now\<close> is the text of \<open>datetime.now()\<close> at the write of the header.
\<close>

definition writeReport :: "string \<Rightarrow> filesys \<Rightarrow> suite \<Rightarrow> run_result \<Rightarrow> bool \<Rightarrow> (error \<times> filesys) + filesys" where
  "writeReport now fs su resultObj zipReport =
     (let cases = allTestCases resultObj;
          filePath = pjoin (outPath su) (testName su @ ''.html'') in
      case (if path_exists fs filePath then remove fs filePath else Inr fs) of
        Inl e \<Rightarrow> Inl (e, fs)
      | Inr fs1 \<Rightarrow>
          (case write_file fs1 filePath
                  (Bytes (render_report (testName su) now (testerName su) cases)) of
             Inl e \<Rightarrow> Inl (e, fs1)
           | Inr fs2 \<Rightarrow> if zipReport then zip_report fs2 su filePath else Inr fs2))"


section \<open>Notions the properties are stated with\<close>

text \<open>
  The rows of a data string in the words of the specification: the names are taken in
  the order of the request, a name absent from the case's data is left out, a name
  present gives the line \<open>name: 'value'\<close>.
\<close>

fun spec_data_rows :: "(string \<rightharpoonup> pyval) \<Rightarrow> string list \<Rightarrow> string list" where
  "spec_data_rows d [] = []"
| "spec_data_rows d (k # ks) =
     (case d k of None \<Rightarrow> spec_data_rows d ks
      | Some v \<Rightarrow> (k @ '': '' @ [CHR 0x27] @ py_str v @ [CHR 0x27]) # spec_data_rows d ks)"

text \<open>
  Lines joined by a separator, in the words of the specification: the first line, then
  every further line with the separator before it; nothing when there is no line.
\<close>

fun spec_joined :: "string \<Rightarrow> string list \<Rightarrow> string" where
  "spec_joined sep [] = []"
| "spec_joined sep (r # rs) = r @ concat (map (\<lambda>x. sep @ x) rs)"

text \<open>The precedence of the rollup status: PASS (1) below WARNING (other) below FAIL (0).\<close>

definition rank :: "int \<Rightarrow> nat" where
  "rank s = (if s = 0 then 2 else if s = 1 then 0 else 1)"

text \<open>The outcome a call reports: a failing step, a warning event.\<close>

fun call_fails :: "call \<Rightarrow> bool" where
  "call_fails (ReportEvent d wn da em el) = False"
| "call_fails (ReportStep d e f ts da em el) = (\<not> ts)"
| "call_fails (AssertTrue x d e f da em el) = (\<not> py_bool x)"
| "call_fails (AssertEqual x y d e f da em el) = (\<not> py_eq x y)"
| "call_fails (AssertFalse x d e f da em el) = py_bool x"
| "call_fails (AssertNotEqual x y d e f da em el) = py_eq x y"

fun call_warns :: "call \<Rightarrow> bool" where
  "call_warns (ReportEvent d wn da em el) = wn"
| "call_warns (ReportStep d e f ts da em el) = False"
| "call_warns (AssertTrue x d e f da em el) = False"
| "call_warns (AssertEqual x y d e f da em el) = False"
| "call_warns (AssertFalse x d e f da em el) = False"
| "call_warns (AssertNotEqual x y d e f da em el) = False"

fun is_assertion :: "call \<Rightarrow> bool" where
  "is_assertion (ReportEvent d wn da em el) = False"
| "is_assertion (ReportStep d e f ts da em el) = False"
| "is_assertion (AssertTrue x d e f da em el) = True"
| "is_assertion (AssertEqual x y d e f da em el) = True"
| "is_assertion (AssertFalse x d e f da em el) = True"
| "is_assertion (AssertNotEqual x y d e f da em el) = True"

fun is_failing_step :: "step \<Rightarrow> bool" where
  "is_failing_step (TestStep d e f ts ds ip ie) = (\<not> ts)"
| "is_failing_step (TestEvent d w ds ip ie) = False"

fun is_warning_event :: "step \<Rightarrow> bool" where
  "is_warning_event (TestEvent d w ds ip ie) = w"
| "is_warning_event (TestStep d e f ts ds ip ie) = False"

text \<open>The status that the recorded steps determine.\<close>

definition rollup_of :: "step list \<Rightarrow> int" where
  "rollup_of ss =
     (if list_ex is_failing_step ss then 0 else if list_ex is_warning_event ss then 2 else 1)"

text \<open>
  The case object after one assertion step with the given outcome has been recorded:
  the step is appended, and a false outcome sets the status to FAIL.
\<close>

definition with_step :: "tcase \<Rightarrow> string \<Rightarrow> string \<Rightarrow> string \<Rightarrow> bool \<Rightarrow> data_arg \<Rightarrow> string option \<Rightarrow> bool \<Rightarrow> tcase" where
  "with_step c d e f ts da ip em =
     c\<lparr>steps := steps c @ [TestStep d e f ts (makeDataString c da) ip em],
       status := (if ts then status c else 0)\<rparr>"

text \<open>What a place of the tree holds, not counting what lies below it.\<close>

definition sig_at :: "node \<Rightarrow> string list \<Rightarrow> (content + unit) option" where
  "sig_at t r =
     (case lookup r t of None \<Rightarrow> None | Some (File x) \<Rightarrow> Some (Inl x)
      | Some (Dir es) \<Rightarrow> Some (Inr ()))"

text \<open>Where the resolution of a path starts: the root for an absolute path.\<close>

definition start_of :: "filesys \<Rightarrow> string \<Rightarrow> string list" where
  "start_of fs p = (if hd p = CHR ''/'' then [] else cwd fs)"

text \<open>
  A well-formed tree: in every directory the names are distinct, and a name is not empty,
  not \<open>.\<close> or \<open>..\<close>, and has no separator.
\<close>

definition valid_name :: "string \<Rightarrow> bool" where
  "valid_name c = (c \<noteq> [] \<and> c \<noteq> ''.'' \<and> c \<noteq> ''..'' \<and> CHR ''/'' \<notin> set c)"

fun wf_node :: "node \<Rightarrow> bool" where
  "wf_node (File x) = True"
| "wf_node (Dir es) =
     (distinct (map fst es) \<and> list_all (\<lambda>e. valid_name (fst e) \<and> wf_node (snd e)) es)"

text \<open>
  The files below a directory, each as the list of names that leads to it from the
  directory, in the order of the walk; and the paths that \<open>writeReport\<close> collects from
  the walk.
\<close>

fun file_rels :: "node \<Rightarrow> string list list" where
  "file_rels (File x) = []"
| "file_rels (Dir es) =
     map (\<lambda>f. [f]) (filenames es)
     @ concat (map (\<lambda>e. case snd e of Dir ds \<Rightarrow> map ((#) (fst e)) (file_rels (snd e))
                         | File x \<Rightarrow> []) es)"

definition walk_paths :: "string \<Rightarrow> node \<Rightarrow> string list" where
  "walk_paths tp n = concat (map (\<lambda>(root, ds, files). map (pjoin root) files) (walk_node tp n))"

subsection \<open>Concrete inputs\<close>

definition drv0 :: driver where
  "drv0 = \<lparr>find_element_kw = Map.empty, find_element_pos = Map.empty,
           element_png = Map.empty, screen_png = Some ''PNG''\<rparr>"

definition fs_empty :: filesys where
  "fs_empty = \<lparr>tree = Dir [], cwd = []\<rparr>"

definition case0 :: tcase where
  "case0 = init_case ''TC001'' ''demo'' False False Map.empty"

definition fs_shots :: filesys where
  "fs_shots = \<lparr>tree = Dir [(''.screenshots'', Dir [])], cwd = []\<rparr>"
definition fs_out :: filesys where
  "fs_out = \<lparr>tree = Dir [(''out'', Dir [(''.screenshots'', Dir [])])], cwd = []\<rparr>"

definition fs_out_stale :: filesys where
  "fs_out_stale =
     \<lparr>tree = Dir [(''out'', Dir [(''.screenshots'', Dir []), (''R.html'', File (Bytes ''stale''))])],
      cwd = []\<rparr>"

definition suite0 :: suite where
  "suite0 = \<lparr>testName = ''R'', testerName = ''tester'', outPath = ''out'',
             screenshot_path = ''out/.screenshots''\<rparr>"

definition result0 :: run_result where
  "result0 = \<lparr>successes = [(case0, [])], failures = [], errors = []\<rparr>"

definition fs_shot1 :: filesys where
  "fs_shot1 =
     \<lparr>tree = Dir [(''.screenshots'', Dir [(''TC001'', Dir [(''1 - s.png'', File (Bytes ''PNG''))])])],
      cwd = []\<rparr>"

definition fs_shot2 :: filesys where
  "fs_shot2 =
     \<lparr>tree = Dir [(''.screenshots'', Dir [(''TC001'', Dir [(''2 - s.png'', File (Bytes ''PNG''))])])],
      cwd = []\<rparr>"



section \<open>Data strings\<close>

lemma rows_spec:
  "map (data_row c) (filter (\<lambda>a. data c a \<noteq> None) names) = spec_data_rows (data c) names"
  by (induction names) (auto simp: data_row_def)

lemma str_nat_1: "str_nat (Suc 0) = ''1''"
  by (simp add: str_nat.simps digit_char_def)

lemma str_join_spec: "str_join sep rs = spec_joined sep rs"
  by (induction sep rs rule: str_join.induct) simp_all

lemma str_nat_2: "str_nat 2 = ''2''"
  by (simp add: str_nat.simps digit_char_def)

lemma str_nat_12: "str_nat 12 = ''12''"
  by (simp add: str_nat.simps digit_char_def)

text \<open>
  Claim C6. Given a list of field names, \<open>_makeDataString\<close> returns the lines
  \<open>name: 'value'\<close> of the names present in the case's data, in the order of the request,
  joined by the line separator (\<open><br>\<close> in the current module, a newline in the older
  one), and leaves out the absent names; a plain string is returned verbatim; None gives
  the empty string. For the data \<open>{a: 1, b: 2}\<close> the request \<open>["a", "c"]\<close> gives the
  line of \<open>a\<close> alone, and the request \<open>["a", "b"]\<close> gives \<open>a: '1'<br>b: '2'\<close>
  (with a newline for \<open><br>\<close> in the older module); a name requested twice is
  rendered twice, and a value is rendered as Python's \<open>str\<close> renders it.
\<close>

theorem makeDataString_spec:
  "makeDataString c (DList names) = spec_joined ''<br>'' (spec_data_rows (data c) names)
   \<and> makeDataString_old c (DList names) = spec_joined [CHR 0x0A] (spec_data_rows (data c) names)
   \<and> makeDataString c (DStr s) = s \<and> makeDataString_old c (DStr s) = s
   \<and> makeDataString c DNone = [] \<and> makeDataString_old c DNone = []
   \<and> makeDataString (init_case tcid descr p l [''a'' \<mapsto> PInt 1, ''b'' \<mapsto> PInt 2]) (DList [''a'', ''c''])
       = ''a: '' @ [CHR 0x27] @ ''1'' @ [CHR 0x27]
   \<and> makeDataString (init_case tcid descr p l [''a'' \<mapsto> PInt 1, ''b'' \<mapsto> PInt 2]) (DList [''a'', ''b''])
       = ''a: '' @ [CHR 0x27] @ ''1'' @ [CHR 0x27] @ ''<br>b: '' @ [CHR 0x27] @ ''2'' @ [CHR 0x27]
   \<and> makeDataString_old (init_case tcid descr p l [''a'' \<mapsto> PInt 1, ''b'' \<mapsto> PInt 2]) (DList [''a'', ''b''])
       = ''a: '' @ [CHR 0x27] @ ''1'' @ [CHR 0x27] @ [CHR 0x0A] @ ''b: '' @ [CHR 0x27] @ ''2'' @ [CHR 0x27]
   \<and> makeDataString
         (init_case tcid descr p l
            [''login'' \<mapsto> PStr ''standard_user'', ''n'' \<mapsto> PInt (- 12), ''ok'' \<mapsto> PBool True,
             ''z'' \<mapsto> PNone])
         (DList [''n'', ''missing'', ''login'', ''ok'', ''z'', ''n''])
       = ''n: '' @ [CHR 0x27] @ ''-12'' @ [CHR 0x27]
         @ ''<br>login: '' @ [CHR 0x27] @ ''standard_user'' @ [CHR 0x27]
         @ ''<br>ok: '' @ [CHR 0x27] @ ''True'' @ [CHR 0x27]
         @ ''<br>z: '' @ [CHR 0x27] @ ''None'' @ [CHR 0x27]
         @ ''<br>n: '' @ [CHR 0x27] @ ''-12'' @ [CHR 0x27]"
  by (simp add: rows_spec str_join_spec init_case_def str_int_def str_nat_1 str_nat_2 str_nat_12
        data_row_def del: not_None_eq)

section \<open>The rollup status\<close>

lemma reportEvent_cases:
  "reportEvent drv (fs, c) d wn da em el =
     (case capture drv fs c el d of
        Inl (e, fs') \<Rightarrow> Inl (e, fs', c)
      | Inr (fs', ip) \<Rightarrow>
          Inr (fs', c\<lparr>steps := steps c @ [TestEvent d wn (makeDataString c da) ip em],
                      status := (if wn \<and> status c = 1 then 2 else status c)\<rparr>))"
  by (auto simp: reportEvent_def Let_def split: sum.splits prod.splits)

lemma reportStep_cases:
  "reportStep drv (fs, c) d e f ts da em el =
     (case capture drv fs c el d of
        Inl (x, fs') \<Rightarrow> Inl (x, fs', c)
      | Inr (fs', ip) \<Rightarrow>
          Inr (fs', c\<lparr>steps := steps c @ [TestStep d e f ts (makeDataString c da) ip em],
                      status := (if ts then status c else 0)\<rparr>))"
  by (auto simp: reportStep_def Let_def split: sum.splits prod.splits)


lemma capture_cases_status:
  "status (final_case (reportEvent drv (fs, c) d wn da em el)) =
     (case capture drv fs c el d of Inl x \<Rightarrow> status c
      | Inr y \<Rightarrow> if wn \<and> status c = 1 then 2 else status c)"
  by (simp add: reportEvent_cases split: sum.splits prod.splits)

lemma reportStep_status:
  "status (final_case (reportStep drv (fs, c) d e f ts da em el)) =
     (case capture drv fs c el d of Inl x \<Rightarrow> status c
      | Inr y \<Rightarrow> if ts then status c else 0)"
  by (simp add: reportStep_cases split: sum.splits prod.splits)

lemma final_case_assert:
  "final_case (case r of Inl x \<Rightarrow> Inl x | Inr w' \<Rightarrow> if b then Inr w' else Inl (AssertionError, w')) = final_case r"
  by (cases r) (auto split: prod.splits)

lemma final_case_assert':
  "final_case (case r of Inl x \<Rightarrow> Inl x | Inr w' \<Rightarrow> if b then Inl (AssertionError, w') else Inr w') = final_case r"
  by (cases r) (auto split: prod.splits)

lemma reportEvent_status3:
  "status (final_case (reportEvent drv (fs, c) d wn da em el)) = status c
   \<or> status (final_case (reportEvent drv (fs, c) d wn da em el)) = 0
   \<or> (status c = 1 \<and> status (final_case (reportEvent drv (fs, c) d wn da em el)) = 2)"
  by (cases "capture drv fs c el d") (auto simp: capture_cases_status)

lemma reportStep_status3:
  "status (final_case (reportStep drv (fs, c) d e f ts da em el)) = status c
   \<or> status (final_case (reportStep drv (fs, c) d e f ts da em el)) = 0
   \<or> (status c = 1 \<and> status (final_case (reportStep drv (fs, c) d e f ts da em el)) = 2)"
  by (cases "capture drv fs c el d") (auto simp: reportStep_status)

lemma exec_call_status:
  "status (final_case (exec_call drv (fs, c) x)) = status c
   \<or> status (final_case (exec_call drv (fs, c) x)) = 0
   \<or> (status c = 1 \<and> status (final_case (exec_call drv (fs, c) x)) = 2)"
proof (cases x)
  case (ReportEvent d wn da em el)
  then show ?thesis using reportEvent_status3 [of drv fs c d wn da em el] by simp
next
  case (ReportStep d e f ts da em el)
  then show ?thesis using reportStep_status3 [of drv fs c d e f ts da em el] by simp
next
  case (AssertTrue v d e f da em el)
  then show ?thesis using reportStep_status3 [of drv fs c d e f "py_bool v" da em el]
    by (simp add: assertTrue_def final_case_assert)
next
  case (AssertEqual v v' d e f da em el)
  then show ?thesis using reportStep_status3 [of drv fs c d e f "py_eq v v'" da em el]
    by (simp add: assertEqual_def final_case_assert)
next
  case (AssertFalse v d e f da em el)
  then show ?thesis using reportStep_status3 [of drv fs c d e f "\<not> py_bool v" da em el]
    by (simp add: assertFalse_def final_case_assert')
next
  case (AssertNotEqual v v' d e f da em el)
  then show ?thesis using reportStep_status3 [of drv fs c d e f "\<not> py_eq v v'" da em el]
    by (simp add: assertNotEqual_def final_case_assert')
qed

lemma exec_call_rank: "rank (status c) \<le> rank (status (final_case (exec_call drv (fs, c) x)))"
  using exec_call_status [of drv fs c x] by (auto simp: rank_def)

lemma run_calls_rank:
  "rank (status c) \<le> rank (status (final_case (run_calls drv (fs, c) xs)))"
proof (induction xs arbitrary: fs c)
  case Nil
  show ?case by simp
next
  case (Cons x xs)
  show ?case
  proof (cases "exec_call drv (fs, c) x")
    case (Inl r)
    obtain e fs' c' where r: "r = (e, fs', c')" by (cases r) auto
    from exec_call_rank [of c drv fs x] Inl r show ?thesis by simp
  next
    case (Inr w')
    obtain fs' c' where w': "w' = (fs', c')" by (cases w') auto
    from exec_call_rank [of c drv fs x] Inr w' have "rank (status c) \<le> rank (status c')" by simp
    also have "\<dots> \<le> rank (status (final_case (run_calls drv (fs', c') xs)))" by (rule Cons.IH)
    finally show ?thesis using Inr w' by simp
  qed
qed

lemma rank_top: "rank s \<ge> 2 \<Longrightarrow> s = 0"
  by (auto simp: rank_def split: if_splits)

lemma capture_shots_ok:
  "capture drv0 fs_shots case0 (Some (ElStr ''screen'')) ''s''
     = Inr (fs_shot1, Some ''.screenshots/TC001/1 - s.png'')"
  by (simp add: capture_def screenshot_def pjoin_def path_exists_def resolve_def is_dir_at_def
        mkdir_def save_png_def write_file_def set_entry_def screenshot_name_def str_nat_1
        drv0_def fs_shots_def fs_shot1_def case0_def init_case_def)

lemma capture_empty_fault:
  "capture drv0 fs_empty case0 (Some (ElStr ''screen'')) ''s'' = Inl (OSError, fs_empty)"
  by (simp add: capture_def screenshot_def pjoin_def path_exists_def resolve_def is_dir_at_def
        mkdir_def fs_empty_def case0_def init_case_def)

lemma capture_fault_reportStep:
  "capture drv fs c el d = Inl (err, fs1) \<Longrightarrow>
   reportStep drv (fs, c) d e f ts da em el = Inl (err, fs1, c)"
  by (simp add: reportStep_cases)

lemma capture_fault_reportEvent:
  "capture drv fs c el d = Inl (err, fs1) \<Longrightarrow>
   reportEvent drv (fs, c) d wn da em el = Inl (err, fs1, c)"
  by (simp add: reportEvent_cases)

text \<open>
  Claim C1, amended. The rollup status starts at PASS and moves only along PASS, WARNING,
  FAIL: no call and no sequence of calls lowers its rank, whether the call returns or
  raises; once the status is FAIL it stays FAIL; an event changes nothing unless the
  status is PASS; an event without warning and a passing step change nothing. A failing
  step whose screenshot capture (if one is requested) does not fault is appended and sets
  the status to FAIL from any status, and a warning event whose capture does not fault
  sets the status PASS to WARNING. A call whose capture faults raises before anything is
  appended and leaves the steps and the status as they were.
\<close>

theorem status_rollup_monotonic:
  "status (init_case tcid descr p l kw) = 1
   \<and> rank (status c) \<le> rank (status (final_case (exec_call drv (fs, c) x)))
   \<and> rank (status c) \<le> rank (status (final_case (run_calls drv (fs, c) xs)))
   \<and> (status cF = 0 \<longrightarrow> status (final_case (run_calls drv (fs, cF) xs)) = 0)
   \<and> (reportStep drv (fs, c) d e f False da em el = Inr (fs', c') \<longrightarrow> status c' = 0)
   \<and> (status cW \<noteq> 1 \<longrightarrow> status (final_case (reportEvent drv (fs, cW) d wn da em el)) = status cW)
   \<and> (status cP = 1 \<and> reportEvent drv (fs, cP) d True da em el = Inr (fs'', c'') \<longrightarrow> status c'' = 2)
   \<and> status (final_case (reportEvent drv (fs, c) d False da em el)) = status c
   \<and> status (final_case (reportStep drv (fs, c) d e f True da em el)) = status c
   \<and> (capture drv fs c el d = Inr (fsR, ip) \<longrightarrow>
        reportStep drv (fs, c) d e f False da em el
          = Inr (fsR, c\<lparr>steps := steps c @ [TestStep d e f False (makeDataString c da) ip em],
                         status := 0\<rparr>))
   \<and> (status cP = 1 \<and> capture drv fs cP el d = Inr (fsR, ip) \<longrightarrow>
        reportEvent drv (fs, cP) d True da em el
          = Inr (fsR, cP\<lparr>steps := steps cP @ [TestEvent d True (makeDataString cP da) ip em],
                          status := 2\<rparr>))
   \<and> (capture drvX fsX cX elX dX = Inl (err, fsY) \<longrightarrow>
        reportStep drvX (fsX, cX) dX e f ts da em elX = Inl (err, fsY, cX)
        \<and> reportEvent drvX (fsX, cX) dX wn da em elX = Inl (err, fsY, cX))"
proof (intro conjI)
  show "status (init_case tcid descr p l kw) = 1" by (simp add: init_case_def)
  show "rank (status c) \<le> rank (status (final_case (exec_call drv (fs, c) x)))"
    by (rule exec_call_rank)
  show "rank (status c) \<le> rank (status (final_case (run_calls drv (fs, c) xs)))"
    by (rule run_calls_rank)
  show "status cF = 0 \<longrightarrow> status (final_case (run_calls drv (fs, cF) xs)) = 0"
  proof
    assume "status cF = 0"
    then have "2 \<le> rank (status (final_case (run_calls drv (fs, cF) xs)))"
      using run_calls_rank [of cF drv fs xs] by (simp add: rank_def)
    then show "status (final_case (run_calls drv (fs, cF) xs)) = 0" by (rule rank_top)
  qed
  show "reportStep drv (fs, c) d e f False da em el = Inr (fs', c') \<longrightarrow> status c' = 0"
    by (cases "capture drv fs c el d") (auto simp: reportStep_cases)
  show "status cW \<noteq> 1 \<longrightarrow> status (final_case (reportEvent drv (fs, cW) d wn da em el)) = status cW"
    by (cases "capture drv fs cW el d") (auto simp: capture_cases_status)
  show "status cP = 1 \<and> reportEvent drv (fs, cP) d True da em el = Inr (fs'', c'') \<longrightarrow> status c'' = 2"
    by (cases "capture drv fs cP el d") (auto simp: reportEvent_cases)
  show "status (final_case (reportEvent drv (fs, c) d False da em el)) = status c"
    by (cases "capture drv fs c el d") (auto simp: capture_cases_status)
  show "status (final_case (reportStep drv (fs, c) d e f True da em el)) = status c"
    by (cases "capture drv fs c el d") (auto simp: reportStep_status)
  show "capture drv fs c el d = Inr (fsR, ip) \<longrightarrow>
        reportStep drv (fs, c) d e f False da em el
          = Inr (fsR, c\<lparr>steps := steps c @ [TestStep d e f False (makeDataString c da) ip em],
                         status := 0\<rparr>)"
    by (simp add: reportStep_cases)
  show "status cP = 1 \<and> capture drv fs cP el d = Inr (fsR, ip) \<longrightarrow>
        reportEvent drv (fs, cP) d True da em el
          = Inr (fsR, cP\<lparr>steps := steps cP @ [TestEvent d True (makeDataString cP da) ip em],
                          status := 2\<rparr>)"
    by (simp add: reportEvent_cases)
  show "capture drvX fsX cX elX dX = Inl (err, fsY) \<longrightarrow>
        reportStep drvX (fsX, cX) dX e f ts da em elX = Inl (err, fsY, cX)
        \<and> reportEvent drvX (fsX, cX) dX wn da em elX = Inl (err, fsY, cX)"
    by (simp add: capture_fault_reportStep capture_fault_reportEvent)
qed

theorem status_rollup_monotonic_witness:
  "status (case0\<lparr>status := 0\<rparr>) = 0
   \<and> status (final_case (run_calls drv0 (fs_shots, case0\<lparr>status := 0\<rparr>)
        [ReportEvent ''e'' True DNone False None, ReportStep ''s'' ''x'' ''y'' True DNone False None])) = 0
   \<and> status (case0\<lparr>status := 2\<rparr>) \<noteq> 1
   \<and> status (final_case (reportEvent drv0 (fs_shots, case0\<lparr>status := 2\<rparr>) ''s'' True DNone False
        (Some (ElStr ''screen'')))) = status (case0\<lparr>status := 2\<rparr>)
   \<and> status case0 = 1
   \<and> capture drv0 fs_shots case0 (Some (ElStr ''screen'')) ''s''
        = Inr (fs_shot1, Some ''.screenshots/TC001/1 - s.png'')
   \<and> reportStep drv0 (fs_shots, case0) ''s'' ''x'' ''y'' False DNone False (Some (ElStr ''screen''))
        = Inr (fs_shot1,
            case0\<lparr>steps := steps case0 @
                      [TestStep ''s'' ''x'' ''y'' False (makeDataString case0 DNone)
                         (Some ''.screenshots/TC001/1 - s.png'') False],
                   status := 0\<rparr>)
   \<and> reportEvent drv0 (fs_shots, case0) ''s'' True DNone False (Some (ElStr ''screen''))
        = Inr (fs_shot1,
            case0\<lparr>steps := steps case0 @
                      [TestEvent ''s'' True (makeDataString case0 DNone)
                         (Some ''.screenshots/TC001/1 - s.png'') False],
                   status := 2\<rparr>)
   \<and> capture drv0 fs_empty case0 (Some (ElStr ''screen'')) ''s'' = Inl (OSError, fs_empty)
   \<and> reportStep drv0 (fs_empty, case0) ''s'' ''x'' ''y'' False DNone False (Some (ElStr ''screen''))
        = Inl (OSError, fs_empty, case0)
   \<and> reportEvent drv0 (fs_empty, case0) ''s'' True DNone False (Some (ElStr ''screen''))
        = Inl (OSError, fs_empty, case0)"
proof -
  have s1: "status case0 = 1" by (simp add: case0_def init_case_def)
  have s0: "status (case0\<lparr>status := 0\<rparr>) = 0" by simp
  have s2: "status (case0\<lparr>status := 2\<rparr>) \<noteq> 1" by simp
  note t = status_rollup_monotonic [where c = case0 and drv = drv0 and fs = fs_shots
      and xs = "[ReportEvent ''e'' True DNone False None, ReportStep ''s'' ''x'' ''y'' True DNone False None]"
      and cF = "case0\<lparr>status := 0\<rparr>" and cW = "case0\<lparr>status := 2\<rparr>" and cP = case0
      and d = "''s''" and e = "''x''" and f = "''y''" and da = DNone and em = False
      and el = "Some (ElStr ''screen'')" and wn = True and ts = False
      and fsR = fs_shot1 and ip = "Some ''.screenshots/TC001/1 - s.png''"
      and drvX = drv0 and fsX = fs_empty and cX = case0 and elX = "Some (ElStr ''screen'')"
      and dX = "''s''" and err = OSError and fsY = fs_empty]
  from t s0 s1 s2 capture_shots_ok capture_empty_fault show ?thesis by blast
qed

text \<open>
  Claim C1 as stated fails where the capture faults: with no directory \<open>.screenshots\<close>
  in the working directory, a failing \<open>reportStep\<close> with a capture target raises OSError
  from \<open>mkdir\<close>, and the status is still PASS.
\<close>

theorem failing_step_capture_fault_counterexample:
  "reportStep drv0 (fs_empty, case0) ''s'' ''x'' ''y'' False DNone False (Some (ElStr ''screen''))
     = Inl (OSError, fs_empty, case0)
   \<and> status case0 = 1"
proof
  show "reportStep drv0 (fs_empty, case0) ''s'' ''x'' ''y'' False DNone False (Some (ElStr ''screen''))
     = Inl (OSError, fs_empty, case0)"
    by (rule capture_fault_reportStep [OF capture_empty_fault])
  show "status case0 = 1" by (simp add: case0_def init_case_def)
qed

lemma exec_call_Inr_status:
  assumes "exec_call drv (fs, c) x = Inr (fs1, c1)"
  shows "status c1 = (if call_fails x then 0 else if call_warns x \<and> status c = 1 then 2 else status c)"
proof (cases x)
  case (ReportEvent d wn da em el)
  with assms show ?thesis
    by (cases "capture drv fs c el d") (auto simp: reportEvent_cases)
next
  case (ReportStep d e f ts da em el)
  with assms show ?thesis
    by (cases "capture drv fs c el d") (auto simp: reportStep_cases)
next
  case (AssertTrue v d e f da em el)
  with assms show ?thesis
    by (cases "capture drv fs c el d") (auto simp: assertTrue_def reportStep_cases split: if_splits)
next
  case (AssertEqual v v' d e f da em el)
  with assms show ?thesis
    by (cases "capture drv fs c el d") (auto simp: assertEqual_def reportStep_cases split: if_splits)
next
  case (AssertFalse v d e f da em el)
  with assms show ?thesis
    by (cases "capture drv fs c el d") (auto simp: assertFalse_def reportStep_cases split: if_splits)
next
  case (AssertNotEqual v v' d e f da em el)
  with assms show ?thesis
    by (cases "capture drv fs c el d") (auto simp: assertNotEqual_def reportStep_cases split: if_splits)
qed

lemma run_calls_Inr_status:
  "run_calls drv (fs, c) xs = Inr (fs', c') \<Longrightarrow>
   status c' = (if list_ex call_fails xs then 0
                else if list_ex call_warns xs \<and> status c = 1 then 2 else status c)"
proof (induction xs arbitrary: fs c)
  case Nil
  then show ?case by simp
next
  case (Cons x xs)
  show ?case
  proof (cases "exec_call drv (fs, c) x")
    case (Inl r)
    with Cons.prems show ?thesis by simp
  next
    case (Inr w1)
    obtain fs1 c1 where w1: "w1 = (fs1, c1)" by (cases w1) auto
    from Inr w1 have s1: "status c1 = (if call_fails x then 0 else if call_warns x \<and> status c = 1 then 2 else status c)"
      by (simp add: exec_call_Inr_status)
    from Cons.prems Inr w1 have "run_calls drv (fs1, c1) xs = Inr (fs', c')" by simp
    from Cons.IH [OF this] s1 show ?thesis by (auto split: if_splits)
  qed
qed

lemma rollup_of_snoc_event:
  "rollup_of (ss @ [TestEvent d wn ds ip em]) =
     (if wn \<and> rollup_of ss = 1 then 2 else rollup_of ss)"
  by (auto simp: rollup_of_def)

lemma rollup_of_snoc_step:
  "rollup_of (ss @ [TestStep d e f ts ds ip em]) = (if ts then rollup_of ss else 0)"
  by (auto simp: rollup_of_def)

lemma reportEvent_inv:
  "status c = rollup_of (steps c) \<Longrightarrow>
   status (final_case (reportEvent drv (fs, c) d wn da em el))
     = rollup_of (steps (final_case (reportEvent drv (fs, c) d wn da em el)))"
  by (cases "capture drv fs c el d") (auto simp: reportEvent_cases rollup_of_snoc_event)

lemma reportStep_inv:
  "status c = rollup_of (steps c) \<Longrightarrow>
   status (final_case (reportStep drv (fs, c) d e f ts da em el))
     = rollup_of (steps (final_case (reportStep drv (fs, c) d e f ts da em el)))"
  by (cases "capture drv fs c el d") (auto simp: reportStep_cases rollup_of_snoc_step)

lemma exec_call_inv:
  assumes "status c = rollup_of (steps c)"
  shows "status (final_case (exec_call drv (fs, c) x))
     = rollup_of (steps (final_case (exec_call drv (fs, c) x)))"
proof (cases x)
  case (ReportEvent d wn da em el)
  then show ?thesis using reportEvent_inv [OF assms] by simp
next
  case (ReportStep d e f ts da em el)
  then show ?thesis using reportStep_inv [OF assms] by simp
next
  case (AssertTrue v d e f da em el)
  then show ?thesis using reportStep_inv [OF assms]
    by (simp add: assertTrue_def final_case_assert)
next
  case (AssertEqual v v' d e f da em el)
  then show ?thesis using reportStep_inv [OF assms]
    by (simp add: assertEqual_def final_case_assert)
next
  case (AssertFalse v d e f da em el)
  then show ?thesis using reportStep_inv [OF assms]
    by (simp add: assertFalse_def final_case_assert')
next
  case (AssertNotEqual v v' d e f da em el)
  then show ?thesis using reportStep_inv [OF assms]
    by (simp add: assertNotEqual_def final_case_assert')
qed

lemma run_calls_inv:
  "status c = rollup_of (steps c) \<Longrightarrow>
   status (final_case (run_calls drv (fs, c) xs))
     = rollup_of (steps (final_case (run_calls drv (fs, c) xs)))"
proof (induction xs arbitrary: fs c)
  case Nil
  then show ?case by simp
next
  case (Cons x xs)
  show ?case
  proof (cases "exec_call drv (fs, c) x")
    case (Inl r)
    obtain e fs' c' where r: "r = (e, fs', c')" by (cases r) auto
    from exec_call_inv [OF Cons.prems, of drv fs x] Inl r show ?thesis by simp
  next
    case (Inr w1)
    obtain fs1 c1 where w1: "w1 = (fs1, c1)" by (cases w1) auto
    from exec_call_inv [OF Cons.prems, of drv fs x] Inr w1
    have "status c1 = rollup_of (steps c1)" by simp
    from Cons.IH [OF this, of fs1] Inr w1 show ?thesis by simp
  qed
qed

lemma list_ex_mset: "mset xs = mset ys \<Longrightarrow> list_ex P xs = list_ex P ys"
  by (auto simp: list_ex_iff dest: mset_eq_setD)

lemma final_status_core:
  "(run_calls drv (fs, init_case tcid descr p l kw) xs = Inr (fs', c') \<longrightarrow>
      status c' = (if list_ex call_fails xs then 0 else if list_ex call_warns xs then 2 else 1))
   \<and> status (final_case (run_calls drv (fs, init_case tcid descr p l kw) xs))
       = rollup_of (steps (final_case (run_calls drv (fs, init_case tcid descr p l kw) xs)))
   \<and> (mset ys = mset xs
        \<and> run_calls drv (fs, init_case tcid descr p l kw) xs = Inr (fs', c')
        \<and> run_calls drv2 (fs2, init_case tcid2 descr2 p2 l2 kw2) ys = Inr (fs2', c2')
       \<longrightarrow> status c2' = status c')"
proof (intro conjI impI)
  assume "run_calls drv (fs, init_case tcid descr p l kw) xs = Inr (fs', c')"
  from run_calls_Inr_status [OF this]
  show "status c' = (if list_ex call_fails xs then 0 else if list_ex call_warns xs then 2 else 1)"
    by (simp add: init_case_def)
next
  show "status (final_case (run_calls drv (fs, init_case tcid descr p l kw) xs))
       = rollup_of (steps (final_case (run_calls drv (fs, init_case tcid descr p l kw) xs)))"
    by (rule run_calls_inv) (simp add: init_case_def rollup_of_def)
next
  assume a: "mset ys = mset xs
        \<and> run_calls drv (fs, init_case tcid descr p l kw) xs = Inr (fs', c')
        \<and> run_calls drv2 (fs2, init_case tcid2 descr2 p2 l2 kw2) ys = Inr (fs2', c2')"
  then have m: "mset ys = mset xs" by simp
  from a have "status c' = (if list_ex call_fails xs then 0 else if list_ex call_warns xs then 2 else 1)"
    using run_calls_Inr_status [of drv fs "init_case tcid descr p l kw" xs fs' c']
    by (simp add: init_case_def)
  moreover from a have "status c2' = (if list_ex call_fails ys then 0 else if list_ex call_warns ys then 2 else 1)"
    using run_calls_Inr_status [of drv2 fs2 "init_case tcid2 descr2 p2 l2 kw2" ys fs2' c2']
    by (simp add: init_case_def)
  ultimately show "status c2' = status c'"
    using list_ex_mset [OF m, of call_fails] list_ex_mset [OF m, of call_warns] by simp
qed

lemma str_nat_2': "str_nat (Suc (Suc 0)) = ''2''"
  by (simp add: str_nat.simps digit_char_def)

lemma capture_fault_assertions:
  "capture drv fs c el d = Inl (err, fs1) \<Longrightarrow>
   assertTrue drv (fs, c) x d e f da em el = Inl (err, fs1, c)
   \<and> assertFalse drv (fs, c) x d e f da em el = Inl (err, fs1, c)
   \<and> assertEqual drv (fs, c) x y d e f da em el = Inl (err, fs1, c)
   \<and> assertNotEqual drv (fs, c) x y d e f da em el = Inl (err, fs1, c)"
  by (simp add: assertTrue_def assertFalse_def assertEqual_def assertNotEqual_def
        capture_fault_reportStep)

lemma capture_fault_run:
  "capture drv fs c el d = Inl (err, fs1) \<Longrightarrow>
   run_calls drv (fs, c) (ReportStep d e f ts da em el # rest) = Inl (err, fs1, c)
   \<and> run_calls drv (fs, c) (ReportEvent d wn da em el # rest) = Inl (err, fs1, c)"
  by (simp add: capture_fault_reportStep capture_fault_reportEvent)

lemma run_two_a:
  "run_calls drv0 (fs_shots, case0)
      [ReportEvent ''e'' True DNone False None,
       ReportStep ''s'' ''x'' ''y'' False DNone False (Some (ElStr ''screen''))]
    = Inr (fs_shot2, case0
         \<lparr>steps := [TestEvent ''e'' True [] None False,
                    TestStep ''s'' ''x'' ''y'' False [] (Some ''.screenshots/TC001/2 - s.png'') False],
          status := 0\<rparr>)"
  by (simp add: reportEvent_cases reportStep_cases capture_def screenshot_def pjoin_def
        path_exists_def resolve_def is_dir_at_def mkdir_def save_png_def write_file_def
        set_entry_def screenshot_name_def str_nat_2' str_nat_2 drv0_def fs_shots_def fs_shot2_def
        case0_def init_case_def)

lemma run_two_b:
  "run_calls drv0 (fs_shots, case0)
      [ReportStep ''s'' ''x'' ''y'' False DNone False (Some (ElStr ''screen'')),
       ReportEvent ''e'' True DNone False None]
    = Inr (fs_shot1, case0
         \<lparr>steps := [TestStep ''s'' ''x'' ''y'' False [] (Some ''.screenshots/TC001/1 - s.png'') False,
                    TestEvent ''e'' True [] None False],
          status := 0\<rparr>)"
  by (simp add: reportEvent_cases reportStep_cases capture_def screenshot_def pjoin_def
        path_exists_def resolve_def is_dir_at_def mkdir_def save_png_def write_file_def
        set_entry_def screenshot_name_def str_nat_1 drv0_def fs_shots_def fs_shot1_def
        case0_def init_case_def)

text \<open>
  Claim C2, amended. After a sequence of reporting calls on a fresh case that have all
  returned (no screenshot capture faulted), the status is FAIL when a call reported a
  false outcome, otherwise WARNING when an event was a warning, otherwise PASS (also for
  the empty sequence); two such sequences with the same multiset of calls end in the same
  status, whatever the order. In every case, also after a raise, the status is the one
  that the recorded steps determine. A call whose capture faults raises, records nothing
  and ends the sequence.
\<close>

theorem final_status_by_outcomes:
  "((run_calls drv (fs, init_case tcid descr p l kw) xs = Inr (fsC, cC) \<longrightarrow>
      status cC = (if list_ex call_fails xs then 0 else if list_ex call_warns xs then 2 else 1))
   \<and> status (final_case (run_calls drv (fs, init_case tcid descr p l kw) xs))
       = rollup_of (steps (final_case (run_calls drv (fs, init_case tcid descr p l kw) xs)))
   \<and> (mset ys = mset xs
        \<and> run_calls drv (fs, init_case tcid descr p l kw) xs = Inr (fsC, cC)
        \<and> run_calls drvB (fsB, init_case tcidB descrB pB lB kwB) ys = Inr (fsD, cD)
       \<longrightarrow> status cD = status cC))
   \<and> (capture drvX fsX cX elX dX = Inl (err, fsY) \<longrightarrow>
        run_calls drvX (fsX, cX) (ReportStep dX eX fX tsX daX emX elX # rest) = Inl (err, fsY, cX)
        \<and> run_calls drvX (fsX, cX) (ReportEvent dX wnX daX emX elX # rest) = Inl (err, fsY, cX))"
  by (rule conjI [OF final_status_core]) (intro impI, rule capture_fault_run)

theorem final_status_by_outcomes_witness:
  "run_calls drv0 (fs_shots, init_case ''TC001'' ''demo'' False False Map.empty)
      [ReportEvent ''e'' True DNone False None,
       ReportStep ''s'' ''x'' ''y'' False DNone False (Some (ElStr ''screen''))]
    = Inr (fs_shot2, case0
         \<lparr>steps := [TestEvent ''e'' True [] None False,
                    TestStep ''s'' ''x'' ''y'' False [] (Some ''.screenshots/TC001/2 - s.png'') False],
          status := 0\<rparr>)
   \<and> status (case0
         \<lparr>steps := [TestEvent ''e'' True [] None False,
                    TestStep ''s'' ''x'' ''y'' False [] (Some ''.screenshots/TC001/2 - s.png'') False],
          status := 0\<rparr>)
       = (if list_ex call_fails [ReportEvent ''e'' True DNone False None,
             ReportStep ''s'' ''x'' ''y'' False DNone False (Some (ElStr ''screen''))] then 0
          else if list_ex call_warns [ReportEvent ''e'' True DNone False None,
             ReportStep ''s'' ''x'' ''y'' False DNone False (Some (ElStr ''screen''))] then 2 else 1)
   \<and> mset [ReportStep ''s'' ''x'' ''y'' False DNone False (Some (ElStr ''screen'')),
            ReportEvent ''e'' True DNone False None]
       = mset [ReportEvent ''e'' True DNone False None,
               ReportStep ''s'' ''x'' ''y'' False DNone False (Some (ElStr ''screen''))]
   \<and> run_calls drv0 (fs_shots, init_case ''TC001'' ''demo'' False False Map.empty)
      [ReportStep ''s'' ''x'' ''y'' False DNone False (Some (ElStr ''screen'')),
       ReportEvent ''e'' True DNone False None]
    = Inr (fs_shot1, case0
         \<lparr>steps := [TestStep ''s'' ''x'' ''y'' False [] (Some ''.screenshots/TC001/1 - s.png'') False,
                    TestEvent ''e'' True [] None False],
          status := 0\<rparr>)
   \<and> status (case0
         \<lparr>steps := [TestStep ''s'' ''x'' ''y'' False [] (Some ''.screenshots/TC001/1 - s.png'') False,
                    TestEvent ''e'' True [] None False],
          status := 0\<rparr>)
       = status (case0
         \<lparr>steps := [TestEvent ''e'' True [] None False,
                    TestStep ''s'' ''x'' ''y'' False [] (Some ''.screenshots/TC001/2 - s.png'') False],
          status := 0\<rparr>)
   \<and> capture drv0 fs_empty case0 (Some (ElStr ''screen'')) ''s'' = Inl (OSError, fs_empty)
   \<and> run_calls drv0 (fs_empty, case0)
        (ReportStep ''s'' ''x'' ''y'' False DNone False (Some (ElStr ''screen''))
         # [ReportEvent ''e'' True DNone False None])
       = Inl (OSError, fs_empty, case0)"
proof -
  have m: "mset [ReportStep ''s'' ''x'' ''y'' False DNone False (Some (ElStr ''screen'')),
            ReportEvent ''e'' True DNone False None]
       = mset [ReportEvent ''e'' True DNone False None,
               ReportStep ''s'' ''x'' ''y'' False DNone False (Some (ElStr ''screen''))]"
    by simp
  have c0: "init_case ''TC001'' ''demo'' False False Map.empty = case0" by (simp add: case0_def)
  note t = final_status_by_outcomes [where drv = drv0 and fs = fs_shots and tcid = "''TC001''"
      and descr = "''demo''" and p = False and l = False and kw = Map.empty
      and xs = "[ReportEvent ''e'' True DNone False None,
                 ReportStep ''s'' ''x'' ''y'' False DNone False (Some (ElStr ''screen''))]"
      and ys = "[ReportStep ''s'' ''x'' ''y'' False DNone False (Some (ElStr ''screen'')),
                 ReportEvent ''e'' True DNone False None]"
      and drvX = drv0 and fsX = fs_empty and cX = case0 and elX = "Some (ElStr ''screen'')"
      and dX = "''s''" and err = OSError and fsY = fs_empty
      and eX = "''x''" and fX = "''y''" and tsX = False and daX = DNone and emX = False
      and rest = "[ReportEvent ''e'' True DNone False None]"
      and drvB = drv0 and fsB = fs_shots and tcidB = "''TC001''" and descrB = "''demo''"
      and pB = False and lB = False and kwB = Map.empty
      and fsC = fs_shot2
      and cC = "case0
         \<lparr>steps := [TestEvent ''e'' True [] None False,
                    TestStep ''s'' ''x'' ''y'' False [] (Some ''.screenshots/TC001/2 - s.png'') False],
          status := 0\<rparr>"
      and fsD = fs_shot1
      and cD = "case0
         \<lparr>steps := [TestStep ''s'' ''x'' ''y'' False [] (Some ''.screenshots/TC001/1 - s.png'') False,
                    TestEvent ''e'' True [] None False],
          status := 0\<rparr>", unfolded c0]
  from t m run_two_a run_two_b capture_empty_fault show ?thesis unfolding c0 by blast
qed

text \<open>
  Claim C2 as stated fails where the capture faults: with no directory \<open>.screenshots\<close>
  in the working directory, the sequence of one failing \<open>reportStep\<close> with a capture
  target raises OSError, and the status is PASS although a step had a false outcome.
\<close>

theorem final_status_fault_counterexample:
  "run_calls drv0 (fs_empty, case0)
      [ReportStep ''s'' ''x'' ''y'' False DNone False (Some (ElStr ''screen''))]
     = Inl (OSError, fs_empty, case0)
   \<and> list_ex call_fails [ReportStep ''s'' ''x'' ''y'' False DNone False (Some (ElStr ''screen''))]
   \<and> status case0 = 1"
proof (intro conjI)
  show "run_calls drv0 (fs_empty, case0)
      [ReportStep ''s'' ''x'' ''y'' False DNone False (Some (ElStr ''screen''))]
     = Inl (OSError, fs_empty, case0)"
    using capture_fault_run [OF capture_empty_fault] by blast
  show "list_ex call_fails [ReportStep ''s'' ''x'' ''y'' False DNone False (Some (ElStr ''screen''))]"
    by simp
  show "status case0 = 1" by (simp add: case0_def init_case_def)
qed

section \<open>Assertions\<close>

lemma data_row_upd:
  "data_row (c\<lparr>steps := s\<rparr>) = data_row c" "data_row (c\<lparr>status := t\<rparr>) = data_row c"
  by (rule ext, simp add: data_row_def)+

lemma makeDataString_upd:
  "makeDataString (c\<lparr>steps := s\<rparr>) da = makeDataString c da"
  "makeDataString (c\<lparr>status := t\<rparr>) da = makeDataString c da"
  by (cases da; simp add: data_row_upd)+

lemma init_case_sel:
  "status (init_case tcid descr p l kw) = 1" "steps (init_case tcid descr p l kw) = []"
  by (simp_all add: init_case_def)

lemma reportStep_with_step:
  "capture drv fs c el d = Inr (fs', ip) \<Longrightarrow>
   reportStep drv (fs, c) d e f ts da em el = Inr (fs', with_step c d e f ts da ip em)"
  by (simp add: reportStep_cases with_step_def)

lemma failing_assertion_raises:
  assumes "is_assertion a" "call_fails a"
  shows "\<exists>r. exec_call drv w a = Inl r"
proof (cases a)
  case (AssertTrue v d e f da em el)
  with assms show ?thesis by (auto simp: assertTrue_def split: sum.splits)
next
  case (AssertEqual v v' d e f da em el)
  with assms show ?thesis by (auto simp: assertEqual_def split: sum.splits)
next
  case (AssertFalse v d e f da em el)
  with assms show ?thesis by (auto simp: assertFalse_def split: sum.splits)
next
  case (AssertNotEqual v v' d e f da em el)
  with assms show ?thesis by (auto simp: assertNotEqual_def split: sum.splits)
qed (use assms in auto)

lemma assertion_core:
  "(capture drv fs c el d = Inr (fs', ip) \<longrightarrow>
      assertTrue drv (fs, c) x d e f da em el =
        (if py_bool x then Inr (fs', with_step c d e f True da ip em)
         else Inl (AssertionError, fs', with_step c d e f False da ip em))
      \<and> assertFalse drv (fs, c) x d e f da em el =
        (if \<not> py_bool x then Inr (fs', with_step c d e f True da ip em)
         else Inl (AssertionError, fs', with_step c d e f False da ip em))
      \<and> assertEqual drv (fs, c) x y d e f da em el =
        (if py_eq x y then Inr (fs', with_step c d e f True da ip em)
         else Inl (AssertionError, fs', with_step c d e f False da ip em))
      \<and> assertNotEqual drv (fs, c) x y d e f da em el =
        (if \<not> py_eq x y then Inr (fs', with_step c d e f True da ip em)
         else Inl (AssertionError, fs', with_step c d e f False da ip em)))
   \<and> steps (with_step c d e f ts da ip em) = steps c @ [TestStep d e f ts (makeDataString c da) ip em]
   \<and> (is_assertion a \<and> call_fails a \<longrightarrow>
        run_calls drv w (a # rest) = exec_call drv w a \<and> (\<exists>r. exec_call drv w a = Inl r))
   \<and> (\<not> py_bool x \<longrightarrow>
        run_calls drv (fs, init_case tcid descr p l kw)
          [ReportEvent d1 wn1 da1 em1 None, AssertTrue x d e f da em None,
           ReportEvent d2 wn2 da2 em2 None]
        = Inl (AssertionError, fs,
            (init_case tcid descr p l kw)
              \<lparr>steps := [TestEvent d1 wn1 (makeDataString (init_case tcid descr p l kw) da1) None em1,
                         TestStep d e f False (makeDataString (init_case tcid descr p l kw) da) None em],
               status := 0\<rparr>))"
proof (intro conjI impI)
  assume cap: "capture drv fs c el d = Inr (fs', ip)"
  show "assertTrue drv (fs, c) x d e f da em el =
        (if py_bool x then Inr (fs', with_step c d e f True da ip em)
         else Inl (AssertionError, fs', with_step c d e f False da ip em))"
    by (simp add: assertTrue_def reportStep_with_step [OF cap])
  show "assertFalse drv (fs, c) x d e f da em el =
        (if \<not> py_bool x then Inr (fs', with_step c d e f True da ip em)
         else Inl (AssertionError, fs', with_step c d e f False da ip em))"
    by (simp add: assertFalse_def reportStep_with_step [OF cap])
  show "assertEqual drv (fs, c) x y d e f da em el =
        (if py_eq x y then Inr (fs', with_step c d e f True da ip em)
         else Inl (AssertionError, fs', with_step c d e f False da ip em))"
    by (simp add: assertEqual_def reportStep_with_step [OF cap])
  show "assertNotEqual drv (fs, c) x y d e f da em el =
        (if \<not> py_eq x y then Inr (fs', with_step c d e f True da ip em)
         else Inl (AssertionError, fs', with_step c d e f False da ip em))"
    by (simp add: assertNotEqual_def reportStep_with_step [OF cap])
next
  show "steps (with_step c d e f ts da ip em) = steps c @ [TestStep d e f ts (makeDataString c da) ip em]"
    by (simp add: with_step_def)
next
  assume a: "is_assertion a \<and> call_fails a"
  then obtain r where r: "exec_call drv w a = Inl r"
    using failing_assertion_raises [of a drv w] by auto
  then show "run_calls drv w (a # rest) = exec_call drv w a" by simp
  from r show "\<exists>r. exec_call drv w a = Inl r" by blast
next
  assume "\<not> py_bool x"
  then show "run_calls drv (fs, init_case tcid descr p l kw)
          [ReportEvent d1 wn1 da1 em1 None, AssertTrue x d e f da em None,
           ReportEvent d2 wn2 da2 em2 None]
        = Inl (AssertionError, fs,
            (init_case tcid descr p l kw)
              \<lparr>steps := [TestEvent d1 wn1 (makeDataString (init_case tcid descr p l kw) da1) None em1,
                         TestStep d e f False (makeDataString (init_case tcid descr p l kw) da) None em],
               status := 0\<rparr>)"
    by (simp add: reportEvent_cases reportStep_cases assertTrue_def capture_def
          makeDataString_upd init_case_sel)
qed

text \<open>
  Claim C3, amended. A call to \<open>assertTrue\<close>, \<open>assertFalse\<close>, \<open>assertEqual\<close> or
  \<open>assertNotEqual\<close> whose screenshot capture (if one is requested) does not fault appends
  exactly one assertion step whose outcome is the named predicate, and then raises
  AssertionError if and only if that outcome is false. A failing assertion ends the case
  body: the calls after it are not made. The body [event, assertTrue(false), event] on a
  fresh case leaves exactly two step records and the status FAIL. A call whose capture
  faults raises that fault before any step is appended, whatever the outcome, and leaves
  the case as it was.
\<close>

theorem assertion_reports_then_raises:
  "((capture drv fs c el d = Inr (fsR, ip) \<longrightarrow>
      assertTrue drv (fs, c) x d e f da em el =
        (if py_bool x then Inr (fsR, with_step c d e f True da ip em)
         else Inl (AssertionError, fsR, with_step c d e f False da ip em))
      \<and> assertFalse drv (fs, c) x d e f da em el =
        (if \<not> py_bool x then Inr (fsR, with_step c d e f True da ip em)
         else Inl (AssertionError, fsR, with_step c d e f False da ip em))
      \<and> assertEqual drv (fs, c) x y d e f da em el =
        (if py_eq x y then Inr (fsR, with_step c d e f True da ip em)
         else Inl (AssertionError, fsR, with_step c d e f False da ip em))
      \<and> assertNotEqual drv (fs, c) x y d e f da em el =
        (if \<not> py_eq x y then Inr (fsR, with_step c d e f True da ip em)
         else Inl (AssertionError, fsR, with_step c d e f False da ip em)))
   \<and> steps (with_step c d e f ts da ip em) = steps c @ [TestStep d e f ts (makeDataString c da) ip em]
   \<and> (is_assertion a \<and> call_fails a \<longrightarrow>
        run_calls drv w (a # rest) = exec_call drv w a \<and> (\<exists>r. exec_call drv w a = Inl r))
   \<and> (\<not> py_bool x \<longrightarrow>
        run_calls drv (fs, init_case tcid descr p l kw)
          [ReportEvent dA wnA daA emA None, AssertTrue x d e f da em None,
           ReportEvent dB wnB daB emB None]
        = Inl (AssertionError, fs,
            (init_case tcid descr p l kw)
              \<lparr>steps := [TestEvent dA wnA (makeDataString (init_case tcid descr p l kw) daA) None emA,
                         TestStep d e f False (makeDataString (init_case tcid descr p l kw) da) None em],
               status := 0\<rparr>)))
   \<and> (capture drvX fsX cX elX dX = Inl (err, fsY) \<longrightarrow>
        assertTrue drvX (fsX, cX) xX dX eX fX daX emX elX = Inl (err, fsY, cX)
        \<and> assertFalse drvX (fsX, cX) xX dX eX fX daX emX elX = Inl (err, fsY, cX)
        \<and> assertEqual drvX (fsX, cX) xX yX dX eX fX daX emX elX = Inl (err, fsY, cX)
        \<and> assertNotEqual drvX (fsX, cX) xX yX dX eX fX daX emX elX = Inl (err, fsY, cX))"
  by (rule conjI [OF assertion_core]) (intro impI, rule capture_fault_assertions)

theorem assertion_reports_then_raises_witness:
  "capture drv0 fs_shots case0 (Some (ElStr ''screen'')) ''s''
     = Inr (fs_shot1, Some ''.screenshots/TC001/1 - s.png'')
   \<and> assertTrue drv0 (fs_shots, case0) (PBool False) ''s'' ''e'' ''f'' DNone False (Some (ElStr ''screen''))
       = Inl (AssertionError, fs_shot1,
           with_step case0 ''s'' ''e'' ''f'' False DNone (Some ''.screenshots/TC001/1 - s.png'') False)
   \<and> assertFalse drv0 (fs_shots, case0) (PBool False) ''s'' ''e'' ''f'' DNone False (Some (ElStr ''screen''))
       = Inr (fs_shot1,
           with_step case0 ''s'' ''e'' ''f'' True DNone (Some ''.screenshots/TC001/1 - s.png'') False)
   \<and> assertEqual drv0 (fs_shots, case0) (PBool False) (PInt 0) ''s'' ''e'' ''f'' DNone False (Some (ElStr ''screen''))
       = Inr (fs_shot1,
           with_step case0 ''s'' ''e'' ''f'' True DNone (Some ''.screenshots/TC001/1 - s.png'') False)
   \<and> assertNotEqual drv0 (fs_shots, case0) (PBool False) (PInt 0) ''s'' ''e'' ''f'' DNone False (Some (ElStr ''screen''))
       = Inl (AssertionError, fs_shot1,
           with_step case0 ''s'' ''e'' ''f'' False DNone (Some ''.screenshots/TC001/1 - s.png'') False)
   \<and> is_assertion (AssertTrue (PBool False) ''s'' ''e'' ''f'' DNone False None)
   \<and> call_fails (AssertTrue (PBool False) ''s'' ''e'' ''f'' DNone False None)
   \<and> run_calls drv0 (fs_empty, case0)
        [AssertTrue (PBool False) ''s'' ''e'' ''f'' DNone False None,
         ReportEvent ''late'' False DNone False None]
       = exec_call drv0 (fs_empty, case0) (AssertTrue (PBool False) ''s'' ''e'' ''f'' DNone False None)
   \<and> \<not> py_bool (PBool False)
   \<and> run_calls drv0 (fs_shots, init_case ''TC001'' ''demo'' False False Map.empty)
        [ReportEvent ''first'' False DNone False None,
         AssertTrue (PBool False) ''s'' ''e'' ''f'' DNone False None,
         ReportEvent ''late'' False DNone False None]
       = Inl (AssertionError, fs_shots,
           (init_case ''TC001'' ''demo'' False False Map.empty)
             \<lparr>steps := [TestEvent ''first'' False [] None False,
                        TestStep ''s'' ''e'' ''f'' False [] None False],
              status := 0\<rparr>)
   \<and> capture drv0 fs_empty case0 (Some (ElStr ''screen'')) ''s'' = Inl (OSError, fs_empty)
   \<and> assertTrue drv0 (fs_empty, case0) (PBool True) ''s'' ''e'' ''f'' DNone False (Some (ElStr ''screen''))
       = Inl (OSError, fs_empty, case0)
   \<and> assertFalse drv0 (fs_empty, case0) (PBool True) ''s'' ''e'' ''f'' DNone False (Some (ElStr ''screen''))
       = Inl (OSError, fs_empty, case0)
   \<and> assertEqual drv0 (fs_empty, case0) (PBool True) (PInt 1) ''s'' ''e'' ''f'' DNone False (Some (ElStr ''screen''))
       = Inl (OSError, fs_empty, case0)
   \<and> assertNotEqual drv0 (fs_empty, case0) (PBool True) (PInt 1) ''s'' ''e'' ''f'' DNone False (Some (ElStr ''screen''))
       = Inl (OSError, fs_empty, case0)"
  using assertion_reports_then_raises [where drv = drv0 and fs = fs_shots and c = case0
      and el = "Some (ElStr ''screen'')" and d = "''s''" and fsR = fs_shot1
      and ip = "Some ''.screenshots/TC001/1 - s.png''" and x = "PBool False" and y = "PInt 0"
      and e = "''e''" and f = "''f''" and da = DNone and em = False and ts = False
      and a = "AssertTrue (PBool False) ''s'' ''e'' ''f'' DNone False None"
      and w = "(fs_empty, case0)" and rest = "[ReportEvent ''late'' False DNone False None]"
      and tcid = "''TC001''" and descr = "''demo''" and p = False and l = False and kw = Map.empty
      and dA = "''first''" and wnA = False and daA = DNone and emA = False
      and dB = "''late''" and wnB = False and daB = DNone and emB = False
      and drvX = drv0 and fsX = fs_empty and cX = case0 and elX = "Some (ElStr ''screen'')"
      and dX = "''s''" and err = OSError and fsY = fs_empty
      and xX = "PBool True" and yX = "PInt 1" and eX = "''e''" and fX = "''f''" and daX = DNone
      and emX = False]
    capture_shots_ok capture_empty_fault
  by simp

text \<open>
  Claim C3 as stated fails where the capture faults: with no directory \<open>.screenshots\<close>
  in the working directory, \<open>assertTrue\<close> on a true expression with a capture target
  raises OSError from \<open>mkdir\<close> and appends no step.
\<close>

theorem assertion_capture_fault_counterexample:
  "assertTrue drv0 (fs_empty, case0) (PBool True) ''d'' ''e'' ''f'' DNone False (Some (ElStr ''screen''))
     = Inl (OSError, fs_empty, case0)"
  by (simp add: assertTrue_def reportStep_def capture_def screenshot_def pjoin_def path_exists_def
        resolve_def is_dir_at_def mkdir_def fs_empty_def case0_def init_case_def)

section \<open>The assertions of the older module\<close>

text \<open>
  Claim C4. In the older module every call to \<open>assertTrue\<close>, \<open>assertFalse\<close>,
  \<open>assertEqual\<close> or \<open>assertNotEqual\<close> raises TypeError, whatever the outcome of the
  assertion: the keyword \<open>elementIDs\<close> names no parameter of \<open>reportStep\<close>. The error
  is raised before a step is appended: the file system and the case, with its steps and
  its status, are as before the call.
\<close>

theorem old_assertions_raise_TypeError:
  "assertTrue_old drv w x d e f da em ids = Inl (TypeError, w)
   \<and> assertEqual_old drv w x y d e f da em ids = Inl (TypeError, w)
   \<and> assertFalse_old drv w x d e f da em ids = Inl (TypeError, w)
   \<and> assertNotEqual_old drv w x y d e f da em ids = Inl (TypeError, w)"
  by (simp add: assertTrue_old_def assertEqual_old_def assertFalse_old_def assertNotEqual_old_def
        call_reportStep_old_def assert_kwargs_old_def reportStep_old_params_def)

section \<open>The order of the cases in the report\<close>


section \<open>Screenshot names\<close>

text \<open>
  Claim C7 on the older module: the file name of a screenshot is the description alone,
  so two captures of one case with the same description give the same path, and the
  second image replaces the first.
\<close>

theorem old_screenshot_names_collide:
  "reportEvent_old drv0 (fs_shots, case0) ''login'' False DNone False (Some (ElStr ''screen''))
     = Inr (\<lparr>tree = Dir [(''.screenshots'', Dir [(''TC001'', Dir [(''login.png'', File (Bytes ''PNG''))])])], cwd = []\<rparr>,
            case0\<lparr>steps := [TestEvent ''login'' False [] (Some ''.screenshots/TC001/login.png'') False]\<rparr>)
   \<and> reportEvent_old drv0
        (\<lparr>tree = Dir [(''.screenshots'', Dir [(''TC001'', Dir [(''login.png'', File (Bytes ''PNG''))])])], cwd = []\<rparr>,
         case0\<lparr>steps := [TestEvent ''login'' False [] (Some ''.screenshots/TC001/login.png'') False]\<rparr>)
        ''login'' False DNone False (Some (ElStr ''screen''))
     = Inr (\<lparr>tree = Dir [(''.screenshots'', Dir [(''TC001'', Dir [(''login.png'', File (Bytes ''PNG''))])])], cwd = []\<rparr>,
            case0\<lparr>steps := [TestEvent ''login'' False [] (Some ''.screenshots/TC001/login.png'') False,
                              TestEvent ''login'' False [] (Some ''.screenshots/TC001/login.png'') False]\<rparr>)"
  by (simp add: reportEvent_old_def capture_old_def screenshot_old_def pjoin_def path_exists_def
        resolve_def is_dir_at_def mkdir_def fs_shots_def case0_def init_case_def drv0_def
        save_png_def write_file_def set_entry_def)

section \<open>Facts about the file system\<close>

subsection \<open>Places of the tree\<close>

lemma map_of_set_entry:
  "map_of (set_entry c v es) c' = (if c' = c then Some v else map_of es c')"
proof (cases "map_of es c")
  case None
  then show ?thesis by (auto simp: set_entry_def map_add_def split: option.splits)
next
  case (Some a)
  have "map_of (map (\<lambda>e. if fst e = c then (c, v) else e) es) c'
          = (if c' = c then (if map_of es c = None then None else Some v) else map_of es c')"
    by (induction es) auto
  with Some show ?thesis by (simp add: set_entry_def)
qed

lemma map_of_filter_neq:
  "map_of (filter (\<lambda>e. fst e \<noteq> c) es) c' = (if c' = c then None else map_of es c')"
  by (induction es) auto

lemma lookup_append:
  "lookup (p @ q) t = (case lookup p t of None \<Rightarrow> None | Some n \<Rightarrow> lookup q n)"
  by (induction p arbitrary: t) (auto split: node.splits option.splits)

lemma is_dir_at_prefix: "is_dir_at t (p @ s) \<Longrightarrow> is_dir_at t p"
  by (cases s) (auto simp: is_dir_at_def lookup_append split: option.splits node.splits)

lemma lookup_put_same:
  "q \<noteq> [] \<Longrightarrow> is_dir_at t (butlast q) \<Longrightarrow> lookup q (put q n t) = Some n"
proof (induction q arbitrary: t)
  case Nil
  then show ?case by simp
next
  case (Cons c cs)
  show ?case
  proof (cases cs)
    case Nil
    with Cons.prems show ?thesis
      by (auto simp: is_dir_at_def map_of_set_entry split: node.splits)
  next
    case (Cons c' cs')
    with Cons.prems obtain es m where t: "t = Dir es" "map_of es c = Some m" "is_dir_at m (butlast cs)"
      by (auto simp: is_dir_at_def split: node.splits option.splits)
    with Cons.IH [of m] Cons show ?thesis
      by (simp add: map_of_set_entry)
  qed
qed

lemma sig_at_put:
  "\<not> prefix q r \<Longrightarrow> sig_at (put q n t) r = sig_at t r"
proof (induction q arbitrary: r t)
  case Nil
  then show ?case by simp
next
  case (Cons c cs)
  show ?case
  proof (cases t)
    case (File x)
    then show ?thesis by simp
  next
    case (Dir es)
    show ?thesis
    proof (cases r)
      case Nil
      with Dir show ?thesis by (auto simp: sig_at_def split: option.splits)
    next
      case (Cons c' r')
      show ?thesis
      proof (cases "c' = c")
        case False
        with Dir Cons show ?thesis
          by (auto simp: sig_at_def map_of_set_entry split: option.splits)
      next
        case True
        with Cons.prems Cons have np: "\<not> prefix cs r'" by simp
        then have cs: "cs \<noteq> []" by auto
        show ?thesis
        proof (cases "map_of es c")
          case None
          with Dir cs show ?thesis by simp
        next
          case (Some m)
          from Cons.IH [OF np, of m] Dir Cons True Some cs show ?thesis
            by (simp add: sig_at_def map_of_set_entry)
        qed
      qed
    qed
  qed
qed

lemma sig_at_del:
  "\<not> prefix q r \<Longrightarrow> sig_at (del q t) r = sig_at t r"
proof (induction q arbitrary: r t)
  case Nil
  then show ?case by simp
next
  case (Cons c cs)
  show ?case
  proof (cases t)
    case (File x)
    then show ?thesis by simp
  next
    case (Dir es)
    show ?thesis
    proof (cases r)
      case Nil
      with Dir show ?thesis by (auto simp: sig_at_def split: option.splits)
    next
      case (Cons c' r')
      show ?thesis
      proof (cases "c' = c")
        case False
        with Dir Cons show ?thesis
          by (auto simp: sig_at_def map_of_set_entry map_of_filter_neq split: option.splits)
      next
        case True
        with Cons.prems Cons have np: "\<not> prefix cs r'" by simp
        then have cs: "cs \<noteq> []" by auto
        show ?thesis
        proof (cases "map_of es c")
          case None
          with Dir cs show ?thesis by simp
        next
          case (Some m)
          from Cons.IH [OF np, of m] Dir Cons True Some cs show ?thesis
            by (simp add: sig_at_def map_of_set_entry)
        qed
      qed
    qed
  qed
qed

lemma lookup_del_below:
  "q \<noteq> [] \<Longrightarrow> prefix q r \<Longrightarrow> lookup r (del q t) = None"
proof (induction q arbitrary: r t)
  case Nil
  then show ?case by simp
next
  case (Cons c cs)
  from Cons.prems obtain r' where r: "r = c # r'" "prefix cs r'"
    by (cases r) auto
  show ?case
  proof (cases t)
    case (File x)
    with r show ?thesis by simp
  next
    case (Dir es)
    show ?thesis
    proof (cases "cs = []")
      case True
      with Dir r show ?thesis by (simp add: map_of_filter_neq)
    next
      case False
      show ?thesis
      proof (cases "map_of es c")
        case None
        with Dir r False show ?thesis by simp
      next
        case (Some m)
        with Dir r False Cons.IH [OF False r(2), of m] show ?thesis
          by (simp add: map_of_set_entry)
      qed
    qed
  qed
qed

lemma is_dir_at_sig: "is_dir_at t r = (sig_at t r = Some (Inr ()))"
  by (auto simp: is_dir_at_def sig_at_def split: option.splits node.splits)

lemma is_file_at_sig: "is_file_at t r = (\<exists>x. sig_at t r = Some (Inl x))"
  by (auto simp: is_file_at_def sig_at_def split: option.splits node.splits)

lemma lookup_None_sig: "(lookup r t = None) = (sig_at t r = None)"
  by (auto simp: sig_at_def split: option.splits node.splits)

lemma lookup_File_sig: "(lookup r t = Some (File x)) = (sig_at t r = Some (Inl x))"
  by (auto simp: sig_at_def split: option.splits node.splits)

subsection \<open>Resolution of paths\<close>

lemma walk_comps_mono:
  "walk_comps t cur cs = Some q \<Longrightarrow> (\<And>r. is_dir_at t r \<Longrightarrow> is_dir_at t' r) \<Longrightarrow>
   walk_comps t' cur cs = Some q"
proof (induction cs arbitrary: cur)
  case Nil
  then show ?case by simp
next
  case (Cons c cs)
  from Cons.prems(1) have d: "is_dir_at t cur" by (auto split: if_splits)
  then have d': "is_dir_at t' cur" by (rule Cons.prems(2))
  from Cons.prems(1) d d' Cons.IH Cons.prems(2) show ?case
    by (auto split: if_splits)
qed

lemma walk_comps_append:
  "walk_comps t cur (xs @ ys) =
     (case walk_comps t cur xs of None \<Rightarrow> None | Some q \<Rightarrow> walk_comps t q ys)"
  by (induction xs arbitrary: cur) auto

lemma walk_comps_result:
  "walk_comps t cur cs = Some q \<Longrightarrow> cs \<noteq> [] \<Longrightarrow>
   is_dir_at t q \<or> (q \<noteq> [] \<and> is_dir_at t (butlast q))"
proof (induction cs arbitrary: cur)
  case Nil
  then show ?case by simp
next
  case (Cons c cs)
  from Cons.prems(1) have d: "is_dir_at t cur" by (auto split: if_splits)
  have db: "is_dir_at t (butlast cur)"
    using d is_dir_at_prefix [of t "butlast cur" "[last cur]"] by (cases "cur = []") auto
  show ?case
  proof (cases "cs = []")
    case True
    with Cons.prems(1) d db show ?thesis by (auto split: if_splits)
  next
    case False
    with Cons.prems(1) d Cons.IH show ?thesis by (auto split: if_splits)
  qed
qed

lemma split_sep_nonempty: "split_sep p \<noteq> []"
  by (induction p) (auto split: list.splits)

lemma resolve_walk:
  "resolve fs p = Some q \<longleftrightarrow> p \<noteq> [] \<and> walk_comps (tree fs) (start_of fs p) (split_sep p) = Some q"
  by (cases p) (simp_all add: resolve_def start_of_def del: split_sep.simps)

lemma resolve_result:
  "resolve fs p = Some q \<Longrightarrow> is_dir_at (tree fs) q \<or> (q \<noteq> [] \<and> is_dir_at (tree fs) (butlast q))"
  unfolding resolve_walk using walk_comps_result [of "tree fs" "start_of fs p" "split_sep p" q]
  by (simp add: split_sep_nonempty)

lemma resolve_mono:
  "resolve fs p = Some q \<Longrightarrow> (\<And>r. is_dir_at (tree fs) r \<Longrightarrow> is_dir_at (tree fs') r) \<Longrightarrow>
   cwd fs' = cwd fs \<Longrightarrow> resolve fs' p = Some q"
  unfolding resolve_walk by (auto simp: start_of_def intro: walk_comps_mono)

subsection \<open>Reading what was written\<close>

lemma put_file_keeps_dirs:
  assumes "\<not> is_dir_at t q" "is_dir_at t r"
  shows "is_dir_at (put q (File x) t) r"
proof -
  have "\<not> prefix q r"
  proof
    assume "prefix q r"
    then obtain s where "r = q @ s" by (auto simp: prefix_def)
    with assms(2) have "is_dir_at t q" using is_dir_at_prefix by blast
    with assms(1) show False by simp
  qed
  from sig_at_put [OF this] assms(2) show ?thesis by (simp add: is_dir_at_sig)
qed

lemma write_file_read:
  assumes "write_file fs p x = Inr fs'"
  shows "read_file fs' p = Inr x"
proof -
  from assms obtain q where q: "resolve fs p = Some q" "\<not> is_dir_at (tree fs) q"
    and fs': "fs' = fs\<lparr>tree := put q (File x) (tree fs)\<rparr>"
    by (auto simp: write_file_def is_dir_at_def split: option.splits node.splits)
  from resolve_result [OF q(1)] q(2) have qq: "q \<noteq> []" "is_dir_at (tree fs) (butlast q)" by auto
  have "resolve fs' p = Some q"
    by (rule resolve_mono [OF q(1)]) (auto simp: fs' intro: put_file_keeps_dirs [OF q(2)])
  moreover have "lookup q (tree fs') = Some (File x)"
    using lookup_put_same [OF qq] by (simp add: fs')
  ultimately show ?thesis by (simp add: read_file_def)
qed

subsection \<open>The walk\<close>

lemma walk_paths_Dir:
  "walk_paths tp (Dir es) =
     map (pjoin tp) (filenames es)
     @ concat (map (\<lambda>e. case snd e of Dir ds \<Rightarrow> walk_paths (pjoin tp (fst e)) (snd e)
                         | File x \<Rightarrow> []) es)"
proof -
  have "concat (map (\<lambda>(root, ds, files). map (pjoin root) files)
          (concat (map (\<lambda>e. case snd e of Dir ds \<Rightarrow> walk_node (pjoin tp (fst e)) (snd e)
                               | File x \<Rightarrow> []) es')))
        = concat (map (\<lambda>e. case snd e of Dir ds \<Rightarrow> walk_paths (pjoin tp (fst e)) (snd e)
                         | File x \<Rightarrow> []) es')" for es'
    by (induction es') (auto simp: walk_paths_def split: node.splits)
  then show ?thesis by (simp add: walk_paths_def)
qed

lemma walk_paths_rels:
  "walk_paths tp n = map (foldl pjoin tp) (file_rels n)"
proof (induction tp n rule: walk_node.induct)
  case (1 tp x)
  show ?case by (simp add: walk_paths_def)
next
  case (2 tp es)
  have "concat (map (\<lambda>e. case snd e of Dir ds \<Rightarrow> walk_paths (pjoin tp (fst e)) (snd e)
                         | File x \<Rightarrow> []) es')
        = map (foldl pjoin tp)
            (concat (map (\<lambda>e. case snd e of Dir ds \<Rightarrow> map ((#) (fst e)) (file_rels (snd e))
                         | File x \<Rightarrow> []) es'))" if "set es' \<subseteq> set es" for es'
    using that
  proof (induction es')
    case Nil
    show ?case by simp
  next
    case (Cons e es')
    then have e: "e \<in> set es" by simp
    show ?case
    proof (cases "snd e")
      case (File x)
      with Cons show ?thesis by simp
    next
      case (Dir ds)
      from "2.IH" [OF e Dir] Dir Cons show ?thesis by (simp add: comp_def)
    qed
  qed
  from this [of es] show ?case
    by (simp add: walk_paths_Dir comp_def)
qed

lemma file_rels_nonempty: "rel \<in> set (file_rels n) \<Longrightarrow> rel \<noteq> []"
  by (cases n) (auto split: node.splits)

lemma is_file_at_Dir_Cons:
  "is_file_at (Dir es) (c # rel) = (case map_of es c of None \<Rightarrow> False | Some m \<Rightarrow> is_file_at m rel)"
  by (simp add: is_file_at_def split: option.splits)

lemma is_file_at_Nil: "is_file_at n [] = (case n of File x \<Rightarrow> True | Dir es \<Rightarrow> False)"
  by (simp add: is_file_at_def split: node.splits)

lemma is_file_at_File: "is_file_at (File x) rel = (rel = [])"
  by (cases rel) (simp_all add: is_file_at_def)

lemma filenames_iff: "f \<in> set (filenames es) \<longleftrightarrow> (\<exists>x. (f, File x) \<in> set es)"
proof (induction es)
  case Nil
  show ?case by (simp add: filenames_def)
next
  case (Cons e es)
  obtain c m where e: "e = (c, m)" by (cases e)
  from Cons show ?case by (cases m) (auto simp: filenames_def e)
qed

lemma mem_file_rels_Dir:
  "rel \<in> set (file_rels (Dir es)) \<longleftrightarrow>
     (\<exists>f. rel = [f] \<and> f \<in> set (filenames es))
     \<or> (\<exists>c m ds rel'. (c, m) \<in> set es \<and> m = Dir ds \<and> rel = c # rel' \<and> rel' \<in> set (file_rels m))"
proof -
  define g where "g = (\<lambda>e. case snd e of Dir ds \<Rightarrow> map ((#) (fst e)) (file_rels (snd e))
                         | File x \<Rightarrow> [])"
  have fr: "file_rels (Dir es) = map (\<lambda>f. [f]) (filenames es) @ concat (map g es)"
    by (simp add: g_def)
  have g1: "rel \<in> set (g (c, m)) \<longleftrightarrow> (\<exists>ds rel'. m = Dir ds \<and> rel = c # rel' \<and> rel' \<in> set (file_rels m))"
    for c m
    by (cases m) (auto simp add: g_def simp del: file_rels.simps)
  have "rel \<in> set (concat (map g es)) \<longleftrightarrow> (\<exists>e \<in> set es. rel \<in> set (g e))"
    by simp
  also have "\<dots> \<longleftrightarrow> (\<exists>c m. (c, m) \<in> set es \<and> rel \<in> set (g (c, m)))"
    by auto
  finally have c: "rel \<in> set (concat (map g es)) \<longleftrightarrow>
      (\<exists>c m ds rel'. (c, m) \<in> set es \<and> m = Dir ds \<and> rel = c # rel' \<and> rel' \<in> set (file_rels m))"
    unfolding g1 by blast
  have "rel \<in> set (map (\<lambda>f. [f]) (filenames es)) \<longleftrightarrow> (\<exists>f. rel = [f] \<and> f \<in> set (filenames es))"
    by auto
  with c show ?thesis unfolding fr by (simp only: set_append Un_iff)
qed

lemma set_file_rels:
  "wf_node n \<Longrightarrow> set (file_rels n) = {rel. rel \<noteq> [] \<and> is_file_at n rel}"
proof (induction n rule: file_rels.induct)
  case (1 x)
  show ?case by (auto simp: is_file_at_File)
next
  case (2 es)
  from "2.prems" have d: "distinct (map fst es)"
    and w: "\<And>e. e \<in> set es \<Longrightarrow> wf_node (snd e)"
    by (auto simp: list_all_iff)
  have IH: "set (file_rels m) = {rel. rel \<noteq> [] \<and> is_file_at m rel}"
    if "(c, m) \<in> set es" "m = Dir ds" for c m ds
    using "2.IH" [of "(c, m)" ds] that w [OF that(1)] by simp
  have mo: "map_of es c = Some m \<longleftrightarrow> (c, m) \<in> set es" for c m
    using map_of_eq_Some_iff [OF d] by simp
  show ?case
  proof (intro set_eqI iffI)
    fix rel assume "rel \<in> set (file_rels (Dir es))"
    then consider (f) f where "rel = [f]" "f \<in> set (filenames es)"
      | (s) c m ds rel' where "(c, m) \<in> set es" "m = Dir ds" "rel = c # rel'" "rel' \<in> set (file_rels m)"
      unfolding mem_file_rels_Dir by blast
    then show "rel \<in> {rel. rel \<noteq> [] \<and> is_file_at (Dir es) rel}"
    proof cases
      case f
      then obtain x where "(f, File x) \<in> set es"
        by (auto simp: filenames_iff)
      then have "map_of es f = Some (File x)" by (simp add: mo)
      with f show ?thesis by (simp add: is_file_at_Dir_Cons is_file_at_Nil)
    next
      case s
      from s(1) have "map_of es c = Some m" by (simp add: mo)
      moreover from s(4) IH [OF s(1,2)] have "is_file_at m rel'" by blast
      ultimately show ?thesis using s(3) by (simp add: is_file_at_Dir_Cons)
    qed
  next
    fix rel assume "rel \<in> {rel. rel \<noteq> [] \<and> is_file_at (Dir es) rel}"
    then obtain c rel' m where r: "rel = c # rel'" "map_of es c = Some m" "is_file_at m rel'"
      by (cases rel) (auto simp: is_file_at_Dir_Cons split: option.splits)
    from r(2) have mem: "(c, m) \<in> set es" by (simp add: mo)
    show "rel \<in> set (file_rels (Dir es))"
    proof (cases m)
      case (File x)
      with r have "rel' = []" by (simp add: is_file_at_File)
      moreover from File mem have "c \<in> set (filenames es)"
        by (auto simp: filenames_iff)
      ultimately show ?thesis using r(1) unfolding mem_file_rels_Dir by blast
    next
      case (Dir ds)
      with r have "rel' \<noteq> []" by (auto simp: is_file_at_Nil)
      with IH [OF mem Dir] r(3) have "rel' \<in> set (file_rels m)" by blast
      with mem Dir r(1) show ?thesis unfolding mem_file_rels_Dir by blast
    qed
  qed
qed

section \<open>The document is a function of its inputs\<close>

text \<open>
  Claim C9. The document is determined by the report name, the tester name, the time
  stamp and the cases: it is a fixed text before the time stamp, the time stamp, and a
  fixed text after it, so two renderings differ at most in that one field; and the file
  that \<open>writeReport\<close> leaves holds exactly this text, whatever the file system held
  before, so two invocations on the same inputs leave the same bytes.
\<close>

theorem report_deterministic:
  "render_report tn now tr cases
     = (''<html><body><h3>'' @ tn @ nl_pad 16 @ ''- run '') @ now
       @ (nl_pad 16 @ ''by '' @ tr @ ''</h3>'' @ concat (map case_block cases) @ ''</body></html>'')
   \<and> (writeReport now fs su r False = Inr fs' \<longrightarrow>
        read_file fs' (pjoin (outPath su) (testName su @ ''.html''))
          = Inr (Bytes (render_report (testName su) now (testerName su) (allTestCases r))))
   \<and> (writeReport now fs1 su r False = Inr fs1' \<and> writeReport now fs2 su r False = Inr fs2' \<longrightarrow>
        read_file fs1' (pjoin (outPath su) (testName su @ ''.html''))
          = read_file fs2' (pjoin (outPath su) (testName su @ ''.html'')))"
proof -
  have w: "read_file g' (pjoin (outPath su) (testName su @ ''.html''))
          = Inr (Bytes (render_report (testName su) now (testerName su) (allTestCases r)))"
    if "writeReport now g su r False = Inr g'" for g g'
    using that
    by (auto simp: writeReport_def Let_def split: sum.splits if_splits intro: write_file_read)
  show ?thesis
    using w [of fs fs'] w [of fs1 fs1'] w [of fs2 fs2']
    by (simp add: render_report_def report_header_def)
qed

theorem report_deterministic_witness:
  "writeReport ''T'' fs_out suite0 result0 False
     = Inr \<lparr>tree = Dir [(''out'', Dir [(''.screenshots'', Dir []),
               (''R.html'', File (Bytes (render_report ''R'' ''T'' ''tester'' (allTestCases result0))))])],
            cwd = []\<rparr>
   \<and> writeReport ''T'' fs_out_stale suite0 result0 False
     = Inr \<lparr>tree = Dir [(''out'', Dir [(''.screenshots'', Dir []),
               (''R.html'', File (Bytes (render_report ''R'' ''T'' ''tester'' (allTestCases result0))))])],
            cwd = []\<rparr>
   \<and> read_file \<lparr>tree = Dir [(''out'', Dir [(''.screenshots'', Dir []),
               (''R.html'', File (Bytes (render_report ''R'' ''T'' ''tester'' (allTestCases result0))))])],
            cwd = []\<rparr> (pjoin (outPath suite0) (testName suite0 @ ''.html''))
     = Inr (Bytes (render_report (testName suite0) ''T'' (testerName suite0) (allTestCases result0)))"
  using report_deterministic [of "''R''" "''T''" "''tester''" "[]" fs_out suite0 result0
      "\<lparr>tree = Dir [(''out'', Dir [(''.screenshots'', Dir []),
               (''R.html'', File (Bytes (render_report ''R'' ''T'' ''tester'' (allTestCases result0))))])],
            cwd = []\<rparr>"
      fs_out
      "\<lparr>tree = Dir [(''out'', Dir [(''.screenshots'', Dir []),
               (''R.html'', File (Bytes (render_report ''R'' ''T'' ''tester'' (allTestCases result0))))])],
            cwd = []\<rparr>"
      fs_out_stale
      "\<lparr>tree = Dir [(''out'', Dir [(''.screenshots'', Dir []),
               (''R.html'', File (Bytes (render_report ''R'' ''T'' ''tester'' (allTestCases result0))))])],
            cwd = []\<rparr>"]
  by (simp add: writeReport_def suite0_def fs_out_def fs_out_stale_def pjoin_def path_exists_def
        resolve_def is_dir_at_def remove_def write_file_def read_file_def set_entry_def)

section \<open>The written document follows the sorted cases\<close>









end
